theory Spec2Isabelle
  imports Complex_Main "HOL-Library.Sublist" "HOL-Library.Multiset"
begin

section \<open>JavaScript values used by PortfolioAnalyzer.jsx\<close>

text \<open>
  A JavaScript number is modelled as an exact real number, or one of the three non-finite
  values. Rounding of doubles to 53 bits is not modelled, and there is a single zero
  (\<open>-0\<close> and \<open>+0\<close> are identified). The operations below follow the ECMAScript
  definitions of \<open>+\<close>, \<open>-\<close>, \<open>*\<close>, \<open>/\<close>, \<open><\<close>, \<open>>=\<close>, truthiness, \<open>isNaN\<close>,
  \<open>Math.min\<close>, \<open>Math.max\<close>, \<open>Math.round\<close> and \<open>parseFloat(x.toFixed(2))\<close> on that domain.
\<close>

datatype jsnum = Fin real | NaN | PInf | NInf

fun js_neg :: "jsnum \<Rightarrow> jsnum" where
  "js_neg (Fin a) = Fin (- a)"
| "js_neg NaN = NaN"
| "js_neg PInf = NInf"
| "js_neg NInf = PInf"

fun js_add :: "jsnum \<Rightarrow> jsnum \<Rightarrow> jsnum" where
  "js_add (Fin a) (Fin b) = Fin (a + b)"
| "js_add (Fin a) NaN = NaN"
| "js_add (Fin a) PInf = PInf"
| "js_add (Fin a) NInf = NInf"
| "js_add NaN y = NaN"
| "js_add PInf (Fin b) = PInf"
| "js_add PInf NaN = NaN"
| "js_add PInf PInf = PInf"
| "js_add PInf NInf = NaN"
| "js_add NInf (Fin b) = NInf"
| "js_add NInf NaN = NaN"
| "js_add NInf PInf = NaN"
| "js_add NInf NInf = NInf"

definition js_sub :: "jsnum \<Rightarrow> jsnum \<Rightarrow> jsnum" where
  "js_sub x y = js_add x (js_neg y)"

definition inf_of_sign :: "real \<Rightarrow> jsnum" where
  "inf_of_sign a = (if a = 0 then NaN else if 0 < a then PInf else NInf)"

fun js_mul :: "jsnum \<Rightarrow> jsnum \<Rightarrow> jsnum" where
  "js_mul (Fin a) (Fin b) = Fin (a * b)"
| "js_mul (Fin a) NaN = NaN"
| "js_mul (Fin a) PInf = inf_of_sign a"
| "js_mul (Fin a) NInf = inf_of_sign (- a)"
| "js_mul NaN y = NaN"
| "js_mul PInf (Fin b) = inf_of_sign b"
| "js_mul PInf NaN = NaN"
| "js_mul PInf PInf = PInf"
| "js_mul PInf NInf = NInf"
| "js_mul NInf (Fin b) = inf_of_sign (- b)"
| "js_mul NInf NaN = NaN"
| "js_mul NInf PInf = NInf"
| "js_mul NInf NInf = PInf"

fun js_div :: "jsnum \<Rightarrow> jsnum \<Rightarrow> jsnum" where
  "js_div (Fin a) (Fin b) = (if b = 0 then inf_of_sign a else Fin (a / b))"
| "js_div (Fin a) NaN = NaN"
| "js_div (Fin a) PInf = Fin 0"
| "js_div (Fin a) NInf = Fin 0"
| "js_div NaN y = NaN"
| "js_div PInf (Fin b) = (if 0 \<le> b then PInf else NInf)"
| "js_div PInf y = NaN"
| "js_div NInf (Fin b) = (if 0 \<le> b then NInf else PInf)"
| "js_div NInf y = NaN"

fun js_lt :: "jsnum \<Rightarrow> jsnum \<Rightarrow> bool" where
  "js_lt (Fin a) (Fin b) = (a < b)"
| "js_lt (Fin a) NaN = False"
| "js_lt (Fin a) PInf = True"
| "js_lt (Fin a) NInf = False"
| "js_lt NaN y = False"
| "js_lt PInf y = False"
| "js_lt NInf (Fin b) = True"
| "js_lt NInf NaN = False"
| "js_lt NInf PInf = True"
| "js_lt NInf NInf = False"

definition js_gt :: "jsnum \<Rightarrow> jsnum \<Rightarrow> bool" where
  "js_gt x y = js_lt y x"

definition js_ge :: "jsnum \<Rightarrow> jsnum \<Rightarrow> bool" where
  "js_ge x y = (x \<noteq> NaN \<and> y \<noteq> NaN \<and> \<not> js_lt x y)"

definition truthy :: "jsnum \<Rightarrow> bool" where
  "truthy x = (x \<noteq> Fin 0 \<and> x \<noteq> NaN)"

definition js_or :: "jsnum \<Rightarrow> jsnum \<Rightarrow> jsnum" where
  "js_or x y = (if truthy x then x else y)"

definition isNaN :: "jsnum \<Rightarrow> bool" where
  "isNaN x = (x = NaN)"

definition Math_min :: "jsnum \<Rightarrow> jsnum \<Rightarrow> jsnum" where
  "Math_min x y = (if x = NaN \<or> y = NaN then NaN else if js_lt y x then y else x)"

definition Math_max :: "jsnum \<Rightarrow> jsnum \<Rightarrow> jsnum" where
  "Math_max x y = (if x = NaN \<or> y = NaN then NaN else if js_lt x y then y else x)"

fun Math_round :: "jsnum \<Rightarrow> jsnum" where
  "Math_round (Fin a) = Fin (of_int \<lfloor>a + 1 / 2\<rfloor>)"
| "Math_round x = x"

text \<open>
  \<open>parseFloat(x.toFixed(2))\<close>: \<open>toFixed\<close> works on the absolute value, takes the integer
  \<open>n\<close> with \<open>n / 100\<close> nearest to it (the larger one on a tie) and puts the sign back;
  \<open>parseFloat\<close> reads the decimal string back.
\<close>

fun toFixed2 :: "jsnum \<Rightarrow> jsnum" where
  "toFixed2 (Fin a) =
     (if a < 0 then Fin (- (of_int \<lfloor>(- a) * 100 + 1 / 2\<rfloor> / 100))
      else Fin (of_int \<lfloor>a * 100 + 1 / 2\<rfloor> / 100))"
| "toFixed2 x = x"

subsection \<open>Strings\<close>

text \<open>
  A string is the list of the bytes of its UTF-8 encoding, so that the ASCII characters are
  single bytes and every other character is a sequence of bytes from \<open>0x80\<close> upwards.
\<close>

definition str_or :: "string \<Rightarrow> string \<Rightarrow> string" where
  "str_or s d = (if s = [] then d else s)"

text \<open>\<open>s.includes(p)\<close>\<close>

fun str_includes :: "string \<Rightarrow> string \<Rightarrow> bool" where
  "str_includes [] p = (p = [])"
| "str_includes (c # cs) p = (prefix p (c # cs) \<or> str_includes cs p)"

text \<open>
  The white space that \<open>trim\<close> and \<open>parseFloat\<close> remove: the code points of \<open>WhiteSpace\<close> and
  \<open>LineTerminator\<close> of ECMAScript, in UTF-8. These are TAB, LF, VT, FF, CR, SPACE, then
  \<open>U+00A0\<close>, \<open>U+1680\<close>, \<open>U+2000\<close> to \<open>U+200A\<close>, \<open>U+2028\<close>, \<open>U+2029\<close>, \<open>U+202F\<close>, \<open>U+205F\<close>,
  \<open>U+3000\<close> and \<open>U+FEFF\<close>.
\<close>

definition space_seqs :: "string list" where
  "space_seqs =
     [[CHR 0x09], [CHR 0x0A], [CHR 0x0B], [CHR 0x0C], [CHR 0x0D], [CHR 0x20],
      [CHR 0xC2, CHR 0xA0],
      [CHR 0xE1, CHR 0x9A, CHR 0x80],
      [CHR 0xE2, CHR 0x80, CHR 0x80], [CHR 0xE2, CHR 0x80, CHR 0x81],
      [CHR 0xE2, CHR 0x80, CHR 0x82], [CHR 0xE2, CHR 0x80, CHR 0x83],
      [CHR 0xE2, CHR 0x80, CHR 0x84], [CHR 0xE2, CHR 0x80, CHR 0x85],
      [CHR 0xE2, CHR 0x80, CHR 0x86], [CHR 0xE2, CHR 0x80, CHR 0x87],
      [CHR 0xE2, CHR 0x80, CHR 0x88], [CHR 0xE2, CHR 0x80, CHR 0x89],
      [CHR 0xE2, CHR 0x80, CHR 0x8A],
      [CHR 0xE2, CHR 0x80, CHR 0xA8], [CHR 0xE2, CHR 0x80, CHR 0xA9],
      [CHR 0xE2, CHR 0x80, CHR 0xAF],
      [CHR 0xE2, CHR 0x81, CHR 0x9F],
      [CHR 0xE3, CHR 0x80, CHR 0x80],
      [CHR 0xEF, CHR 0xBB, CHR 0xBF]]"

text \<open>\<open>s.trimStart()\<close>, \<open>s.trimEnd()\<close> and \<open>s.trim()\<close>\<close>

function trimStart :: "string \<Rightarrow> string" where
  "trimStart s =
     (case find (\<lambda>w. prefix w s) space_seqs of
        None \<Rightarrow> s
      | Some w \<Rightarrow> trimStart (drop (length w) s))"
  by pat_completeness auto
termination
proof (relation "measure length")
  show "wf (measure length)" by simp
next
  fix s w :: string
  assume f: "find (\<lambda>w. prefix w s) space_seqs = Some w"
  then have p: "prefix w s" and m: "w \<in> set space_seqs"
    by (auto simp: find_Some_iff)
  from m obtain c r where w: "w = c # r" by (cases w) (auto simp: space_seqs_def)
  from p have "length w \<le> length s" by (rule prefix_length_le)
  then show "(drop (length w) s, s) \<in> measure length" by (simp add: w)
qed

function trimEnd :: "string \<Rightarrow> string" where
  "trimEnd s =
     (case find (\<lambda>w. suffix w s) space_seqs of
        None \<Rightarrow> s
      | Some w \<Rightarrow> trimEnd (take (length s - length w) s))"
  by pat_completeness auto
termination
proof (relation "measure length")
  show "wf (measure length)" by simp
next
  fix s w :: string
  assume f: "find (\<lambda>w. suffix w s) space_seqs = Some w"
  then have p: "suffix w s" and m: "w \<in> set space_seqs"
    by (auto simp: find_Some_iff)
  from m obtain c r where w: "w = c # r" by (cases w) (auto simp: space_seqs_def)
  from p have "length w \<le> length s" by (rule suffix_length_le)
  then show "(take (length s - length w) s, s) \<in> measure length" by (simp add: w)
qed

declare trimStart.simps [simp del]

declare trimEnd.simps [simp del]

definition trim :: "string \<Rightarrow> string" where
  "trim s = trimEnd (trimStart s)"

text \<open>\<open>s.replace(/^"|"$/g, '')\<close>: one leading and one trailing double quote are removed.\<close>

definition unquote :: "string \<Rightarrow> string" where
  "unquote s =
     (let s1 = (case s of [] \<Rightarrow> [] | c # r \<Rightarrow> if c = CHR 0x22 then r else s)
      in if s1 \<noteq> [] \<and> last s1 = CHR 0x22 then butlast s1 else s1)"

text \<open>\<open>s.replace(/,/g, '')\<close> and \<open>s.replace(/%/g, '')\<close>\<close>

definition remove_char :: "char \<Rightarrow> string \<Rightarrow> string" where
  "remove_char c s = filter (\<lambda>x. x \<noteq> c) s"

text \<open>
  \<open>s.toLowerCase()\<close> on the ASCII letters. Of the other characters only \<open>U+0130\<close> and
  \<open>U+212A\<close> have lower-case forms that contain an ASCII letter (\<open>i\<close> and \<open>k\<close>); their
  images, like those of all other non-ASCII letters, are left as they are.
\<close>

definition lower_char :: "char \<Rightarrow> char" where
  "lower_char c =
     (case map_of (zip ''ABCDEFGHIJKLMNOPQRSTUVWXYZ'' ''abcdefghijklmnopqrstuvwxyz'') c of
        None \<Rightarrow> c | Some l \<Rightarrow> l)"

definition toLowerCase :: "string \<Rightarrow> string" where
  "toLowerCase s = map lower_char s"

text \<open>Decimal digits and the number they write.\<close>

definition digit_val :: "char \<Rightarrow> nat option" where
  "digit_val c = map_of (zip ''0123456789'' [0, 1, 2, 3, 4, 5, 6, 7, 8, 9]) c"

definition is_digit :: "char \<Rightarrow> bool" where
  "is_digit c = (digit_val c \<noteq> None)"

definition digits_val :: "string \<Rightarrow> nat" where
  "digits_val ds = foldl (\<lambda>acc c. 10 * acc + (case digit_val c of None \<Rightarrow> 0 | Some d \<Rightarrow> d)) 0 ds"

subsection \<open>Arrays\<close>

text \<open>\<open>reduce((acc, c) => acc + f(c), 0)\<close>\<close>

definition reduce_sum :: "('a \<Rightarrow> jsnum) \<Rightarrow> 'a list \<Rightarrow> jsnum" where
  "reduce_sum f xs = foldl (\<lambda>acc c. js_add acc (f c)) (Fin 0) xs"

text \<open>
  \<open>Array.prototype.sort(cmp)\<close>: a stable sort; a comparator result that is \<open>NaN\<close> counts
  as \<open>0\<close>. The model is the stable insertion sort, which is what every conforming
  implementation returns when the comparator is a consistent ordering. When it is not
  (some key is \<open>NaN\<close>) the result is left to the implementation by ECMAScript.
\<close>

fun sort_insert :: "('a \<Rightarrow> 'a \<Rightarrow> jsnum) \<Rightarrow> 'a \<Rightarrow> 'a list \<Rightarrow> 'a list" where
  "sort_insert cmp x [] = [x]"
| "sort_insert cmp x (y # ys) =
     (if js_gt (cmp x y) (Fin 0) then y # sort_insert cmp x ys else x # y # ys)"

definition js_sort :: "('a \<Rightarrow> 'a \<Rightarrow> jsnum) \<Rightarrow> 'a list \<Rightarrow> 'a list" where
  "js_sort cmp xs = foldr (sort_insert cmp) xs []"

subsection \<open>Objects used as dictionaries\<close>

text \<open>
  The own properties of an object that the code fills by \<open>d[k] = v\<close>: the keys in the order
  in which they were created, with their values.
\<close>

type_synonym 'v dict = "(string \<times> 'v) list"

fun dict_upd :: "string \<Rightarrow> ('v option \<Rightarrow> 'v) \<Rightarrow> 'v dict \<Rightarrow> 'v dict" where
  "dict_upd k f [] = [(k, f None)]"
| "dict_upd k f ((k', v) # r) =
     (if k' = k then (k', f (Some v)) # r else (k', v) # dict_upd k f r)"

text \<open>
  \<open>Object.keys\<close>, \<open>Object.values\<close> and \<open>Object.entries\<close> list the own properties whose key
  is an array index (the decimal text, without leading zeros, of an integer below
  \<open>2^32 - 1\<close>) first, in ascending numeric order, and then the other keys in the order of
  their creation.
\<close>

definition array_index :: "string \<Rightarrow> bool" where
  "array_index s =
     (s \<noteq> [] \<and> list_all is_digit s \<and> (if hd s = CHR ''0'' then length s = 1 else True)
      \<and> digits_val s < 4294967295)"

definition own_entries :: "'v dict \<Rightarrow> 'v dict" where
  "own_entries d =
     sort_key (\<lambda>e. digits_val (fst e)) (filter (\<lambda>e. array_index (fst e)) d)
     @ filter (\<lambda>e. \<not> array_index (fst e)) d"

text \<open>
  A read \<open>d[k]\<close> of a key that is not an own property finds the properties that every
  object inherits from \<open>Object.prototype\<close>: for the names below it yields a built-in
  function (for \<open>__proto__\<close> the object \<open>Object.prototype\<close> itself), which is truthy, and
  not \<open>undefined\<close>. The model describes one call in a realm whose \<open>Object.prototype\<close>
  has these properties only.
\<close>

definition proto_names :: "string list" where
  "proto_names =
     [''constructor'', ''__defineGetter__'', ''__defineSetter__'', ''hasOwnProperty'',
      ''__lookupGetter__'', ''__lookupSetter__'', ''isPrototypeOf'', ''propertyIsEnumerable'',
      ''toString'', ''valueOf'', ''__proto__'', ''toLocaleString'']"

definition inherited :: "string \<Rightarrow> bool" where
  "inherited k = (k \<in> set proto_names)"

text \<open>
  The property names of the built-in functions themselves: those that every function has
  or inherits from \<open>Function.prototype\<close>, and the further own properties of the function
  \<open>Object\<close> (ECMAScript 2024).
\<close>

definition function_names :: "string list" where
  "function_names = [''length'', ''name'', ''arguments'', ''caller'', ''apply'', ''bind'', ''call'']"

definition object_statics :: "string list" where
  "object_statics =
     [''prototype'', ''assign'', ''create'', ''defineProperties'', ''defineProperty'',
      ''entries'', ''freeze'', ''fromEntries'', ''getOwnPropertyDescriptor'',
      ''getOwnPropertyDescriptors'', ''getOwnPropertyNames'', ''getOwnPropertySymbols'',
      ''getPrototypeOf'', ''groupBy'', ''hasOwn'', ''is'', ''isExtensible'', ''isFrozen'',
      ''isSealed'', ''keys'', ''preventExtensions'', ''seal'', ''setPrototypeOf'', ''values'']"

text \<open>
  \<open>inherited_has k n\<close>: the value that a plain object inherits under the name \<open>k\<close> has
  itself a property named \<open>n\<close>.
\<close>

definition inherited_has :: "string \<Rightarrow> string \<Rightarrow> bool" where
  "inherited_has k n =
     (inherited n \<or>
      (k \<noteq> ''__proto__'' \<and>
       (n \<in> set function_names \<or> (k = ''constructor'' \<and> n \<in> set object_statics))))"

text \<open>
  The ways in which a call does not return a result that depends on its arguments only: a
  \<open>TypeError\<close> is thrown, or a property is added to \<open>Object.prototype\<close>, after which every
  object of the realm inherits it and the rest of the call, as well as later calls, depend
  on it.
\<close>

datatype failure = TypeError | PrototypePolluted

section \<open>The analytics engine (\<open>analysis\<close>)\<close>

text \<open>
  A row of \<open>data\<close>. The five numeric columns hold numbers; a property that is absent
  (\<open>undefined\<close>) is represented by \<open>NaN\<close>, which the engine cannot tell apart from it:
  both are falsy, and \<open>undefined\<close> converts to \<open>NaN\<close> in every arithmetic operation and
  comparison of the engine. The text columns hold strings; the empty string also stands
  for an absent, \<open>null\<close> or \<open>undefined\<close> property (all falsy).
\<close>

record item =
  SchemeName :: string
  Category :: string
  SubCategory :: string
  AMC :: string
  Units :: jsnum
  InvestedValue :: jsnum
  CurrentValue :: jsnum
  Returns :: jsnum
  XIRR :: jsnum

text \<open>An element of \<open>processedData\<close>: the row with \<open>_currentNAV\<close>, \<open>_avgBuyNAV\<close>, \<open>_absReturn\<close>.\<close>

record pitem = item +
  u_currentNAV :: jsnum
  u_avgBuyNAV :: jsnum
  u_absReturn :: jsnum

text \<open>An entry of \<open>group.funds\<close>: \<open>{ ...item, count: 1 }\<close>.\<close>

record fund = pitem +
  count :: nat

definition absReturn_of :: "jsnum \<Rightarrow> jsnum \<Rightarrow> jsnum" where
  "absReturn_of currVal invVal =
     (if js_gt invVal (Fin 0)
      then js_mul (js_div (js_sub currVal invVal) invVal) (Fin 100) else Fin 0)"

definition derive :: "item \<Rightarrow> pitem" where
  "derive it =
     (let units = js_or (Units it) (Fin 0);
          currVal = js_or (CurrentValue it) (Fin 0);
          invVal = js_or (InvestedValue it) (Fin 0)
      in \<lparr>SchemeName = SchemeName it, Category = Category it,
          SubCategory = SubCategory it, AMC = AMC it, Units = Units it,
          InvestedValue = InvestedValue it, CurrentValue = CurrentValue it,
          Returns = Returns it, XIRR = XIRR it,
          u_currentNAV = (if js_gt units (Fin 0) then js_div currVal units else Fin 0),
          u_avgBuyNAV = (if js_gt units (Fin 0) then js_div invVal units else Fin 0),
          u_absReturn = absReturn_of currVal invVal\<rparr>)"

definition is_clutter :: "pitem \<Rightarrow> bool" where
  "is_clutter i = js_lt (CurrentValue i) (Fin 5000)"

text \<open>\<open>if (simulateCleanup) processedData = processedData.filter(i => i['Current Value'] >= 5000)\<close>\<close>

definition working_set :: "bool \<Rightarrow> pitem list \<Rightarrow> pitem list" where
  "working_set simulateCleanup pd =
     (if simulateCleanup then filter (\<lambda>i. js_ge (CurrentValue i) (Fin 5000)) pd else pd)"

subsection \<open>The pass over the working set\<close>

record xirr_acc =
  sumProduct :: jsnum
  sumWeight :: jsnum

record group =
  totalVal :: jsnum
  totalInv :: jsnum
  funds :: "fund dict"

text \<open>
  A value of \<open>byCategory\<close>, \<open>byAMC\<close> or \<open>subCategoryCounts\<close>: a number, or a string. It is a
  string when the key is a name inherited from \<open>Object.prototype\<close>: then \<open>d[k] || 0\<close> is
  the inherited function, and adding a number to it concatenates their texts. The text
  itself is not modelled.
\<close>

datatype tally = Number jsnum | Text

record pass_state =
  byCategory :: "tally dict"
  subCategoryCounts :: "tally dict"
  byAMC :: "tally dict"
  lossMakers :: "pitem list"
  clutter :: "pitem list"
  categoryXIRR :: "xirr_acc dict"
  smartGroups :: "group dict dict"

definition init_state :: pass_state where
  "init_state = \<lparr>byCategory = [], subCategoryCounts = [], byAMC = [], lossMakers = [],
     clutter = [], categoryXIRR = [], smartGroups = []\<rparr>"

text \<open>
  \<open>d[k] = (d[k] || 0) + v\<close>. The assignment creates or overwrites the own property \<open>k\<close>,
  except for \<open>k = '__proto__'\<close>, where it calls the inherited setter, which ignores a
  value that is not an object.
\<close>

definition add_value :: "string \<Rightarrow> jsnum \<Rightarrow> tally option \<Rightarrow> tally" where
  "add_value k v old =
     (case old of
        None \<Rightarrow> if inherited k then Text else Number (js_add (Fin 0) v)
      | Some (Number x) \<Rightarrow> Number (js_add (js_or x (Fin 0)) v)
      | Some Text \<Rightarrow> Text)"

definition tally_upd :: "string \<Rightarrow> jsnum \<Rightarrow> tally dict \<Rightarrow> tally dict" where
  "tally_upd k v d = (if k = ''__proto__'' then d else dict_upd k (add_value k v) d)"

definition xirr_counts :: "jsnum \<Rightarrow> bool" where
  "xirr_counts xirr = (truthy xirr \<and> \<not> isNaN xirr \<and> xirr \<noteq> Fin 0)"

definition add_xirr :: "jsnum \<Rightarrow> jsnum \<Rightarrow> xirr_acc option \<Rightarrow> xirr_acc" where
  "add_xirr xirr currVal old =
     (let a = (case old of None \<Rightarrow> \<lparr>sumProduct = Fin 0, sumWeight = Fin 0\<rparr> | Some a \<Rightarrow> a)
      in if xirr_counts xirr
         then \<lparr>sumProduct = js_add (sumProduct a) (js_mul xirr currVal),
               sumWeight = js_add (sumWeight a) currVal\<rparr>
         else a)"

text \<open>
  \<open>if (!categoryXIRR[subCat]) categoryXIRR[subCat] = {...}\<close> and the two \<open>+=\<close>. Under an
  inherited name no own property is created, and the sums are written to the inherited
  function.
\<close>

definition xirr_upd :: "string \<Rightarrow> jsnum \<Rightarrow> jsnum \<Rightarrow> xirr_acc dict \<Rightarrow> xirr_acc dict" where
  "xirr_upd subCat xirr currVal d =
     (if inherited subCat then d else dict_upd subCat (add_xirr xirr currVal) d)"

definition new_fund :: "pitem \<Rightarrow> fund" where
  "new_fund it =
     \<lparr>SchemeName = SchemeName it, Category = Category it,
      SubCategory = SubCategory it, AMC = AMC it, Units = Units it,
      InvestedValue = InvestedValue it, CurrentValue = CurrentValue it,
      Returns = Returns it, XIRR = XIRR it,
      u_currentNAV = u_currentNAV it, u_avgBuyNAV = u_avgBuyNAV it,
      u_absReturn = u_absReturn it, count = 1\<rparr>"

definition merge_fund :: "fund \<Rightarrow> pitem \<Rightarrow> fund" where
  "merge_fund existing it =
     (let e = existing
            \<lparr>InvestedValue := js_add (InvestedValue existing) (InvestedValue it),
             CurrentValue := js_add (CurrentValue existing) (CurrentValue it),
             Returns := js_add (Returns existing) (Returns it),
             Units := js_add (Units existing) (Units it),
             count := count existing + 1\<rparr>
      in e\<lparr>u_absReturn :=
             (if js_gt (InvestedValue e) (Fin 0)
              then js_mul (js_div (js_sub (CurrentValue e) (InvestedValue e))
                                  (InvestedValue e)) (Fin 100)
              else Fin 0)\<rparr>)"

definition add_fund :: "pitem \<Rightarrow> fund option \<Rightarrow> fund" where
  "add_fund it old = (case old of None \<Rightarrow> new_fund it | Some existing \<Rightarrow> merge_fund existing it)"

text \<open>
  \<open>if (!group.funds[schemeName]) group.funds[schemeName] = {...} else {...}\<close>. Under an
  inherited scheme name the \<open>else\<close> branch runs on the inherited function: the group's
  \<open>funds\<close> get no entry for the row.
\<close>

definition funds_upd :: "pitem \<Rightarrow> fund dict \<Rightarrow> fund dict" where
  "funds_upd it fs =
     (if inherited (SchemeName it) then fs else dict_upd (SchemeName it) (add_fund it) fs)"

definition add_to_group :: "pitem \<Rightarrow> group option \<Rightarrow> group" where
  "add_to_group it old =
     (let g = (case old of None \<Rightarrow> \<lparr>totalVal = Fin 0, totalInv = Fin 0, funds = []\<rparr>
               | Some g \<Rightarrow> g)
      in \<lparr>totalVal = js_add (totalVal g) (CurrentValue it),
          totalInv = js_add (totalInv g) (InvestedValue it),
          funds = funds_upd it (funds g)\<rparr>)"

definition add_to_cat :: "string \<Rightarrow> pitem \<Rightarrow> group dict option \<Rightarrow> group dict" where
  "add_to_cat subCat it old =
     dict_upd subCat (add_to_group it) (case old of None \<Rightarrow> [] | Some m \<Rightarrow> m)"

text \<open>
  The lines from \<open>if (!smartGroups[cat])\<close> to the end of the loop body.

  When \<open>cat\<close> is not an inherited name, \<open>smartGroups[cat]\<close> is a dictionary of the code's
  own. If \<open>subCat\<close> is an inherited name, \<open>smartGroups[cat][subCat]\<close> is a built-in function
  (or \<open>Object.prototype\<close>), \<open>group.funds\<close> is \<open>undefined\<close> and \<open>group.funds[schemeName]\<close>
  throws.

  When \<open>cat\<close> is an inherited name, no own property is created and \<open>smartGroups[cat]\<close> is the
  inherited value. If that value has a property \<open>subCat\<close>, the body throws (the property
  is a function or a string or number without \<open>funds\<close>, or cannot be read or written).
  Otherwise the group is created as a property of the inherited value: of a built-in
  function, where it takes part in nothing else, or, for \<open>cat = '__proto__'\<close>, of
  \<open>Object.prototype\<close>.
\<close>

definition smartGroups_upd ::
  "string \<Rightarrow> string \<Rightarrow> pitem \<Rightarrow> group dict dict \<Rightarrow> failure + group dict dict" where
  "smartGroups_upd cat subCat it sg =
     (if inherited cat then
        (if inherited_has cat subCat then Inl TypeError
         else if cat = ''__proto__'' then Inl PrototypePolluted
         else Inr sg)
      else if inherited subCat then Inl TypeError
      else Inr (dict_upd cat (add_to_cat subCat it) sg))"

definition cat_of :: "'a item_scheme \<Rightarrow> string" where
  "cat_of it = str_or (Category it) ''Other''"

definition subCat_of :: "'a item_scheme \<Rightarrow> string" where
  "subCat_of it = str_or (SubCategory it) ''Other''"

definition amc_of :: "'a item_scheme \<Rightarrow> string" where
  "amc_of it = str_or (AMC it) ''Other''"

text \<open>The body of \<open>processedData.forEach(item => ...)\<close>.\<close>

definition step :: "pass_state \<Rightarrow> pitem \<Rightarrow> failure + pass_state" where
  "step st it =
     (let cat = cat_of it; subCat = subCat_of it; amc = amc_of it;
          xirr = js_or (XIRR it) (Fin 0);
          currVal = CurrentValue it
      in case smartGroups_upd cat subCat it (smartGroups st) of
           Inl e \<Rightarrow> Inl e
         | Inr sg \<Rightarrow>
             Inr \<lparr>byCategory = tally_upd cat currVal (byCategory st),
                  subCategoryCounts = tally_upd subCat (Fin 1) (subCategoryCounts st),
                  byAMC = tally_upd amc currVal (byAMC st),
                  lossMakers = (if js_lt (Returns it) (Fin 0) then lossMakers st @ [it]
                                else lossMakers st),
                  clutter = (if js_lt currVal (Fin 5000) then clutter st @ [it] else clutter st),
                  categoryXIRR = xirr_upd subCat xirr currVal (categoryXIRR st),
                  smartGroups = sg\<rparr>)"

fun run_from :: "pass_state \<Rightarrow> pitem list \<Rightarrow> failure + pass_state" where
  "run_from st [] = Inr st"
| "run_from st (it # rest) =
     (case step st it of Inl e \<Rightarrow> Inl e | Inr st' \<Rightarrow> run_from st' rest)"

definition run_pass :: "pitem list \<Rightarrow> failure + pass_state" where
  "run_pass ws = run_from init_state ws"

subsection \<open>Benchmark comparison\<close>

record bench =
  bench_name :: string
  bench_return :: jsnum

definition BENCHMARKS :: "bench dict" where
  "BENCHMARKS =
     [(''Large Cap'', \<lparr>bench_name = ''Nifty 50'', bench_return = Fin (27 / 2)\<rparr>),
      (''Mid Cap'', \<lparr>bench_name = ''Nifty Midcap 150'', bench_return = Fin (33 / 2)\<rparr>),
      (''Small Cap'', \<lparr>bench_name = ''Nifty Smallcap 250'', bench_return = Fin 19\<rparr>),
      (''Flexi Cap'', \<lparr>bench_name = ''Nifty 500'', bench_return = Fin 15\<rparr>),
      (''ELSS'', \<lparr>bench_name = ''Nifty 500'', bench_return = Fin 15\<rparr>),
      (''Debt'', \<lparr>bench_name = ''FD / Debt Index'', bench_return = Fin 7\<rparr>),
      (''Liquid'', \<lparr>bench_name = ''Liquid Index'', bench_return = Fin 6\<rparr>),
      (''Sectoral'', \<lparr>bench_name = ''Nifty 500'', bench_return = Fin 15\<rparr>),
      (''Other'', \<lparr>bench_name = ''Inflation'', bench_return = Fin 6\<rparr>)]"

text \<open>
  The choice of \<open>benchKey\<close>. It is made for the own keys of \<open>categoryXIRR\<close> only, none of
  which is an inherited name, so that \<open>BENCHMARKS[subCat]\<close> is truthy exactly for the keys
  of the table.
\<close>

definition benchKey_of :: "string \<Rightarrow> string" where
  "benchKey_of subCat =
     (if map_of BENCHMARKS subCat \<noteq> None then subCat
      else if str_includes subCat ''Large'' then ''Large Cap''
      else if str_includes subCat ''Small'' then ''Small Cap''
      else if str_includes subCat ''Mid'' then ''Mid Cap''
      else if str_includes subCat ''Flexi'' then ''Flexi Cap''
      else if str_includes subCat ''Debt'' then ''Debt''
      else ''Other'')"

record comparison =
  category :: string
  myXIRR :: jsnum
  benchXIRR :: jsnum
  benchName :: string
  alpha :: jsnum
  weight :: jsnum

text \<open>
  The body of \<open>Object.keys(categoryXIRR).forEach(subCat => ...)\<close>: the entries pushed for
  one key (none or one). \<open>BENCHMARKS[benchKey]\<close> is always present, since \<open>benchKey\<close> is a
  key of the table in every branch; the \<open>None\<close> case stands for the unreachable
  \<open>TypeError\<close>.
\<close>

definition comparison_entry :: "string \<times> xirr_acc \<Rightarrow> comparison list" where
  "comparison_entry e =
     (let subCat = fst e; a = snd e in
      if js_gt (sumWeight a) (Fin 0) then
        (let my = js_div (sumProduct a) (sumWeight a) in
         case map_of BENCHMARKS (benchKey_of subCat) of
           None \<Rightarrow> []
         | Some b \<Rightarrow>
             [\<lparr>category = subCat, myXIRR = toFixed2 my, benchXIRR = bench_return b,
               benchName = bench_name b, alpha = toFixed2 (js_sub my (bench_return b)),
               weight = sumWeight a\<rparr>])
      else [])"

definition comparisonData_of :: "xirr_acc dict \<Rightarrow> comparison list" where
  "comparisonData_of cx =
     js_sort (\<lambda>a b. js_sub (weight b) (weight a))
       (concat (map comparison_entry (own_entries cx)))"

subsection \<open>Category tree and consolidation plan\<close>

record subnode =
  sub_name :: string
  sub_totalVal :: jsnum
  sub_totalInv :: jsnum
  sub_funds :: "fund list"
  fundCount :: nat

record catnode =
  cat_name :: string
  cat_totalVal :: jsnum
  subCategories :: "subnode list"

definition sub_node :: "string \<times> group \<Rightarrow> subnode" where
  "sub_node e =
     (let fundList = js_sort (\<lambda>a b. js_sub (CurrentValue b) (CurrentValue a))
                             (map snd (own_entries (funds (snd e))))
      in \<lparr>sub_name = fst e, sub_totalVal = totalVal (snd e),
          sub_totalInv = totalInv (snd e), sub_funds = fundList,
          fundCount = length fundList\<rparr>)"

definition cat_node :: "string \<times> group dict \<Rightarrow> catnode" where
  "cat_node e =
     (let subCats = js_sort (\<lambda>a b. js_sub (sub_totalVal b) (sub_totalVal a))
                            (map sub_node (own_entries (snd e)))
      in \<lparr>cat_name = fst e, cat_totalVal = reduce_sum sub_totalVal subCats,
          subCategories = subCats\<rparr>)"

definition categoryTree_of :: "group dict dict \<Rightarrow> catnode list" where
  "categoryTree_of sg =
     js_sort (\<lambda>a b. js_sub (cat_totalVal b) (cat_totalVal a)) (map cat_node (own_entries sg))"

text \<open>The sort key of the consolidation ranking: \<open>f.XIRR || f._absReturn\<close>.\<close>

definition rank_key :: "fund \<Rightarrow> jsnum" where
  "rank_key f = js_or (XIRR f) (u_absReturn f)"

text \<open>\<open>winner\<close> is \<open>sortedFunds[0]\<close>: \<open>None\<close> is \<open>undefined\<close>, read from an empty array.\<close>

record plan =
  plan_category :: string
  winner :: "fund option"
  others :: "fund list"
  potentialMoveValue :: jsnum

definition plan_entry :: "subnode \<Rightarrow> plan" where
  "plan_entry sub =
     (let sortedFunds = js_sort (\<lambda>a b. js_sub (rank_key b) (rank_key a)) (sub_funds sub);
          others = tl sortedFunds
      in \<lparr>plan_category = sub_name sub,
          winner = (case sortedFunds of [] \<Rightarrow> None | w # r \<Rightarrow> Some w),
          others = others,
          potentialMoveValue = reduce_sum CurrentValue others\<rparr>)"

definition consolidationPlan_of :: "catnode list \<Rightarrow> plan list" where
  "consolidationPlan_of tree =
     concat (map (\<lambda>cat. map plan_entry (filter (\<lambda>sub. 2 < fundCount sub) (subCategories cat)))
                 tree)"

subsection \<open>Health score and result\<close>

record health =
  score :: jsnum
  label :: string

definition healthScore_of :: "nat \<Rightarrow> nat \<Rightarrow> nat \<Rightarrow> health" where
  "healthScore_of clutterItems_length lossMakers_length processedData_length =
     (let s0 = Fin 100;
          s1 = js_sub s0 (Math_min (Fin 20) (js_mul (Fin (of_nat clutterItems_length)) (Fin 2)));
          s2 = js_sub s1 (Math_min (Fin 15)
                            (js_mul (Fin (of_nat lossMakers_length)) (Fin (3 / 2))));
          s3 = (if 20 < processedData_length then js_sub s2 (Fin 10) else s2);
          s4 = (if 40 < processedData_length then js_sub s3 (Fin 10) else s3);
          sc = Math_max (Fin 0) (Math_round s4)
      in \<lparr>score = sc,
          label = (if js_lt sc (Fin 40) then ''Critical''
                   else if js_lt sc (Fin 60) then ''Poor''
                   else if js_lt sc (Fin 80) then ''Good'' else ''Excellent'')\<rparr>)"

record simStats =
  originalCount :: nat
  originalTotalVal :: jsnum
  clutterCount :: nat
  clutterVal :: jsnum

text \<open>The number that the sort of \<open>categoryData\<close> and \<open>amcData\<close> reads from a value.\<close>

definition tally_num :: "tally \<Rightarrow> jsnum" where
  "tally_num t = (case t of Number x \<Rightarrow> x | Text \<Rightarrow> NaN)"

record analysis_result =
  r_totalInv :: jsnum
  r_totalCurr :: jsnum
  r_totalReturns :: jsnum
  r_absReturn :: jsnum
  r_lossMakers :: "pitem list"
  r_clutter :: "pitem list"
  r_categoryData :: "(string \<times> tally) list"
  r_amcData :: "(string \<times> tally) list"
  r_processedData :: "pitem list"
  r_categoryTree :: "catnode list"
  r_healthScore :: health
  r_comparisonData :: "comparison list"
  r_simStats :: simStats
  r_consolidationPlan :: "plan list"

text \<open>
  The body of the \<open>useMemo\<close> callback for a non-null \<open>data\<close>, as a function of \<open>data\<close> and
  \<open>simulateCleanup\<close>: the returned object, or the way in which the loop over the working
  set fails. The fields of the returned object carry the prefix \<open>r_\<close>; \<open>treemapData\<close>
  (a reshaping of \<open>categoryTree\<close> for the chart) is left out. The source file holds a second
  copy of the component, whose callback is the same up to the displayed lists: it keeps the
  first seven entries of \<open>amcData\<close> and returns \<open>categories\<close>, \<open>topGainers\<close> and
  \<open>bottomLaggards\<close> instead of \<open>treemapData\<close>.
\<close>

definition analysis :: "item list \<Rightarrow> bool \<Rightarrow> failure + analysis_result" where
  "analysis data simulateCleanup =
     (let processedData0 = map derive data;
          originalCount = length processedData0;
          originalTotalVal = reduce_sum CurrentValue processedData0;
          clutterItems = filter is_clutter processedData0;
          clutterVal = reduce_sum CurrentValue clutterItems;
          processedData = working_set simulateCleanup processedData0;
          totalInv = reduce_sum (\<lambda>curr. js_or (InvestedValue curr) (Fin 0)) processedData;
          totalCurr = reduce_sum (\<lambda>curr. js_or (CurrentValue curr) (Fin 0)) processedData;
          totalReturns = js_sub totalCurr totalInv;
          absReturn = (if js_gt totalInv (Fin 0)
                       then js_mul (js_div totalReturns totalInv) (Fin 100) else Fin 0)
      in case run_pass processedData of
           Inl e \<Rightarrow> Inl e
         | Inr st \<Rightarrow>
             (let comparisonData = comparisonData_of (categoryXIRR st);
                  categoryTree = categoryTree_of (smartGroups st);
                  consolidationPlan = consolidationPlan_of categoryTree;
                  categoryData = js_sort (\<lambda>a b. js_sub (tally_num (snd b)) (tally_num (snd a)))
                                   (own_entries (byCategory st));
                  amcData = js_sort (\<lambda>a b. js_sub (tally_num (snd b)) (tally_num (snd a)))
                              (own_entries (byAMC st))
              in Inr \<lparr>r_totalInv = totalInv, r_totalCurr = totalCurr,
                      r_totalReturns = totalReturns, r_absReturn = absReturn,
                      r_lossMakers = lossMakers st, r_clutter = clutter st,
                      r_categoryData = categoryData, r_amcData = amcData,
                      r_processedData = processedData, r_categoryTree = categoryTree,
                      r_healthScore = healthScore_of (length clutterItems)
                                        (length (lossMakers st)) (length processedData),
                      r_comparisonData = comparisonData,
                      r_simStats = \<lparr>originalCount = originalCount,
                                    originalTotalVal = originalTotalVal,
                                    clutterCount = length clutterItems,
                                    clutterVal = clutterVal\<rparr>,
                      r_consolidationPlan = consolidationPlan\<rparr>))"

subsection \<open>The health score as the specification words it\<close>

text \<open>
  Start at 100, subtract \<open>min(20, 2 * clutterCount)\<close> and \<open>min(15, 1.5 * lossMakerCount)\<close>,
  subtract 10 above 20 holdings and 10 more above 40, clamp to \<open>[0, 100]\<close>, round to the
  nearest integer (a half rounds up, as \<open>Math.round\<close> does).
\<close>

definition raw_score :: "nat \<Rightarrow> nat \<Rightarrow> nat \<Rightarrow> real" where
  "raw_score c l n = 100 - min 20 (of_nat c * 2) - min 15 (of_nat l * (3 / 2))
          - (if 20 < n then 10 else 0) - (if 40 < n then 10 else 0)"

definition spec_health_score :: "nat \<Rightarrow> nat \<Rightarrow> nat \<Rightarrow> int" where
  "spec_health_score c l n =
     \<lfloor>max 0 (min 100 (100 - min 20 (of_nat c * 2) - min 15 (of_nat l * (3 / 2))
          - (if 20 < n then 10 else 0) - (if 40 < n then 10 else 0)) :: real) + 1 / 2\<rfloor>"

subsection \<open>Auxiliary notions for the statements\<close>

text \<open>
  The rows of the input that make up the working set: all of them, or with
  \<open>simulateCleanup\<close> those whose current value is at least 5000. The counts that the
  specification's score formula takes from a list of rows.
\<close>

definition kept :: "bool \<Rightarrow> item \<Rightarrow> bool" where
  "kept sim i = (if sim then js_ge (CurrentValue i) (Fin 5000) else True)"

definition working_rows :: "item list \<Rightarrow> bool \<Rightarrow> item list" where
  "working_rows h sim = filter (kept sim) h"

definition below_5000 :: "'a item_scheme \<Rightarrow> bool" where
  "below_5000 i = js_lt (CurrentValue i) (Fin 5000)"

definition loss_making :: "'a item_scheme \<Rightarrow> bool" where
  "loss_making i = js_lt (Returns i) (Fin 0)"

text \<open>Rows none of whose labels is a name inherited from \<open>Object.prototype\<close>.\<close>

definition plain_labels :: "'a item_scheme \<Rightarrow> bool" where
  "plain_labels i =
     (\<not> inherited (cat_of i) \<and> \<not> inherited (subCat_of i) \<and> \<not> inherited (SchemeName i))"

text \<open>The failure, if any, of the loop body on one row.\<close>

definition row_failure :: "pitem \<Rightarrow> failure option" where
  "row_failure it =
     (case smartGroups_upd (cat_of it) (subCat_of it) it [] of
        Inl e \<Rightarrow> Some e | Inr sg \<Rightarrow> None)"

text \<open>Folding \<open>d[key(x)] = g(x, d[key(x)])\<close> over a list, as the pass does for each of its tables.\<close>

definition dict_fold :: "('x \<Rightarrow> string) \<Rightarrow> ('x \<Rightarrow> 'v option \<Rightarrow> 'v) \<Rightarrow> 'v dict \<Rightarrow> 'x list \<Rightarrow> 'v dict" where
  "dict_fold key g d xs = foldl (\<lambda>d x. dict_upd (key x) (g x) d) d xs"

text \<open>
  The rows that enter the weighted-XIRR accumulator of the code: \<open>XIRR\<close> is neither \<open>0\<close>
  nor \<open>NaN\<close> (an absent \<open>XIRR\<close> is \<open>NaN\<close> here). The sums of a sub-category are taken over
  its counted rows, in the order of the working set.
\<close>

definition counted :: "pitem \<Rightarrow> bool" where
  "counted i = (XIRR i \<noteq> Fin 0 \<and> XIRR i \<noteq> NaN)"

definition xirr_product :: "pitem list \<Rightarrow> string \<Rightarrow> jsnum" where
  "xirr_product ws s =
     reduce_sum (\<lambda>i. js_mul (XIRR i) (CurrentValue i))
       (filter counted (filter (\<lambda>i. subCat_of i = s) ws))"

definition xirr_weight :: "pitem list \<Rightarrow> string \<Rightarrow> jsnum" where
  "xirr_weight ws s = reduce_sum CurrentValue (filter counted (filter (\<lambda>i. subCat_of i = s) ws))"

text \<open>
  The rows of a list that fall into one category / sub-category group, and those of them
  that carry one scheme name, in the order of the list.
\<close>

definition group_rows :: "'a item_scheme list \<Rightarrow> string \<Rightarrow> string \<Rightarrow> 'a item_scheme list" where
  "group_rows ws c sc = filter (\<lambda>i. subCat_of i = sc) (filter (\<lambda>i. cat_of i = c) ws)"

definition scheme_rows ::
  "'a item_scheme list \<Rightarrow> string \<Rightarrow> string \<Rightarrow> string \<Rightarrow> 'a item_scheme list" where
  "scheme_rows ws c sc s = filter (\<lambda>i. SchemeName i = s) (group_rows ws c sc)"

text \<open>\<open>smartGroups[c][sc]\<close> and \<open>smartGroups[c][sc].funds[s]\<close>, as own properties\<close>

definition lookup_group :: "group dict dict \<Rightarrow> string \<Rightarrow> string \<Rightarrow> group option" where
  "lookup_group sg c sc = (case map_of sg c of None \<Rightarrow> None | Some m \<Rightarrow> map_of m sc)"

definition lookup_fund :: "group dict dict \<Rightarrow> string \<Rightarrow> string \<Rightarrow> string \<Rightarrow> fund option" where
  "lookup_fund sg c sc s =
     (case lookup_group sg c sc of None \<Rightarrow> None | Some g \<Rightarrow> map_of (funds g) s)"

definition empty_group :: group where
  "empty_group = \<lparr>totalVal = Fin 0, totalInv = Fin 0, funds = []\<rparr>"

text \<open>The group that the pass builds from the rows of one category / sub-category.\<close>

definition group_of :: "pitem list \<Rightarrow> string \<Rightarrow> string \<Rightarrow> group" where
  "group_of ws c sc =
     \<lparr>totalVal = reduce_sum CurrentValue (group_rows ws c sc),
      totalInv = reduce_sum InvestedValue (group_rows ws c sc),
      funds = dict_fold SchemeName add_fund []
                (filter (\<lambda>i. \<not> inherited (SchemeName i)) (group_rows ws c sc))\<rparr>"

text \<open>The sub-category nodes of the tree, each with the name of its category.\<close>

definition tree_groups :: "catnode list \<Rightarrow> (string \<times> subnode) list" where
  "tree_groups tree =
     concat (map (\<lambda>cat. map (\<lambda>sub. (cat_name cat, sub)) (subCategories cat)) tree)"

text \<open>
  The fields of a merged fund entry \<open>f\<close> in terms of the rows it was built from: the first
  row \<open>r\<close> and the later rows \<open>rest\<close> of its scheme in its group.
\<close>

definition merged_from :: "fund \<Rightarrow> pitem \<Rightarrow> pitem list \<Rightarrow> bool" where
  "merged_from f r rest =
     (InvestedValue f = foldl js_add (InvestedValue r) (map InvestedValue rest)
      \<and> CurrentValue f = foldl js_add (CurrentValue r) (map CurrentValue rest)
      \<and> Returns f = foldl js_add (Returns r) (map Returns rest)
      \<and> Units f = foldl js_add (Units r) (map Units rest)
      \<and> count f = Suc (length rest)
      \<and> u_absReturn f =
          (if rest = [] then u_absReturn r else absReturn_of (CurrentValue f) (InvestedValue f))
      \<and> XIRR f = XIRR r \<and> SchemeName f = SchemeName r \<and> Category f = Category r
      \<and> SubCategory f = SubCategory r \<and> AMC f = AMC r
      \<and> u_currentNAV f = u_currentNAV r \<and> u_avgBuyNAV f = u_avgBuyNAV r
      \<and> rank_key f = js_or (XIRR r) (u_absReturn f))"

text \<open>
  The ranking key of a scheme in terms of the input rows \<open>i\<close> (the first) and \<open>rest\<close> of the
  scheme: the first row's \<open>XIRR\<close> if it is neither \<open>0\<close> nor \<open>NaN\<close>, else the absolute return
  in percent, of the row alone or of the sums over the rows.
\<close>

definition scheme_key :: "item \<Rightarrow> item list \<Rightarrow> jsnum" where
  "scheme_key i rest =
     (if XIRR i \<noteq> Fin 0 \<and> XIRR i \<noteq> NaN then XIRR i
      else if rest = []
        then absReturn_of (js_or (CurrentValue i) (Fin 0)) (js_or (InvestedValue i) (Fin 0))
      else absReturn_of (foldl js_add (CurrentValue i) (map CurrentValue rest))
                        (foldl js_add (InvestedValue i) (map InvestedValue rest)))"

text \<open>The value of a finite number, for sums written with \<open>\<Sum>\<close>.\<close>

definition num_val :: "jsnum \<Rightarrow> real" where
  "num_val x = (case x of Fin v \<Rightarrow> v | _ \<Rightarrow> 0)"

text \<open>Rows whose five numeric fields are finite numbers, as the data model of the specification has them.\<close>

definition is_fin :: "jsnum \<Rightarrow> bool" where
  "is_fin x = (case x of Fin v \<Rightarrow> True | _ \<Rightarrow> False)"

definition finite_item :: "item \<Rightarrow> bool" where
  "finite_item i = (is_fin (Units i) \<and> is_fin (InvestedValue i) \<and> is_fin (CurrentValue i)
                    \<and> is_fin (Returns i) \<and> is_fin (XIRR i))"

subsection \<open>Sample rows\<close>

definition demo_item :: item where
  "demo_item = \<lparr>SchemeName = ''A'', Category = ''Equity'', SubCategory = ''Large Cap'',
     AMC = ''HDFC'', Units = Fin 500, InvestedValue = Fin 50000, CurrentValue = Fin 75000,
     Returns = Fin 25000, XIRR = Fin (31 / 2)\<rparr>"

definition small_item :: item where
  "small_item = \<lparr>SchemeName = ''X'', Category = ''Equity'', SubCategory = ''Small Cap'',
     AMC = ''N'', Units = Fin 50, InvestedValue = Fin 4000, CurrentValue = Fin 4500,
     Returns = Fin 500, XIRR = Fin 12\<rparr>"

definition loss_item :: item where
  "loss_item = \<lparr>SchemeName = ''L'', Category = ''Equity'', SubCategory = ''Mid Cap'',
     AMC = ''N'', Units = Fin 60, InvestedValue = Fin 6100, CurrentValue = Fin 6000,
     Returns = Fin (- 100), XIRR = Fin (- 2)\<rparr>"

definition ctor_item :: item where
  "ctor_item = \<lparr>SchemeName = ''X'', Category = ''Equity'', SubCategory = ''constructor'',
     AMC = ''N'', Units = Fin 50, InvestedValue = Fin 4000, CurrentValue = Fin 4500,
     Returns = Fin 500, XIRR = Fin 12\<rparr>"

definition nan_item :: item where
  "nan_item = \<lparr>SchemeName = ''Y'', Category = ''Equity'', SubCategory = ''Large Cap'',
     AMC = ''N'', Units = Fin 10, InvestedValue = Fin 1000, CurrentValue = NaN,
     Returns = Fin 0, XIRR = Fin 0\<rparr>"

definition tie_item :: item where
  "tie_item = \<lparr>SchemeName = ''T'', Category = ''Equity'', SubCategory = ''Large Cap'',
     AMC = ''A'', Units = Fin 100, InvestedValue = Fin 7000, CurrentValue = Fin 8000,
     Returns = Fin 1000, XIRR = Fin (107 / 8)\<rparr>"

definition inf_item :: item where
  "inf_item = \<lparr>SchemeName = ''I'', Category = ''Equity'', SubCategory = ''Large Cap'',
     AMC = ''A'', Units = Fin 100, InvestedValue = Fin 7000, CurrentValue = Fin 8000,
     Returns = Fin 1000, XIRR = PInf\<rparr>"

definition fund_a :: item where
  "fund_a = \<lparr>SchemeName = ''A'', Category = ''Equity'', SubCategory = ''Large Cap'',
     AMC = ''P'', Units = Fin 100, InvestedValue = Fin 8000, CurrentValue = Fin 10000,
     Returns = Fin 2000, XIRR = Fin 10\<rparr>"

definition fund_b :: item where
  "fund_b = \<lparr>SchemeName = ''B'', Category = ''Equity'', SubCategory = ''Large Cap'',
     AMC = ''Q'', Units = Fin 100, InvestedValue = Fin 8000, CurrentValue = Fin 10000,
     Returns = Fin 2000, XIRR = Fin 30\<rparr>"

definition fund_c :: item where
  "fund_c = \<lparr>SchemeName = ''C'', Category = ''Equity'', SubCategory = ''Large Cap'',
     AMC = ''R'', Units = Fin 100, InvestedValue = Fin 8000, CurrentValue = Fin 10000,
     Returns = Fin 2000, XIRR = Fin 20\<rparr>"

definition fund_a2 :: item where
  "fund_a2 = \<lparr>SchemeName = ''A'', Category = ''Equity'', SubCategory = ''Large Cap'',
     AMC = ''Z'', Units = Fin 50, InvestedValue = Fin 2000, CurrentValue = Fin 5000,
     Returns = Fin 3000, XIRR = Fin 40\<rparr>"

text \<open>
  Three schemes of one group, in descending order of current value; the second has no
  \<open>XIRR\<close> and an infinite invested value, so that its \<open>_absReturn\<close> and its ranking key are
  \<open>NaN\<close>.
\<close>

definition key_a :: item where
  "key_a = \<lparr>SchemeName = ''A'', Category = ''Equity'', SubCategory = ''Large Cap'',
     AMC = ''P'', Units = Fin 100, InvestedValue = Fin 25000, CurrentValue = Fin 30000,
     Returns = Fin 5000, XIRR = Fin 10\<rparr>"

definition key_b :: item where
  "key_b = \<lparr>SchemeName = ''B'', Category = ''Equity'', SubCategory = ''Large Cap'',
     AMC = ''Q'', Units = Fin 100, InvestedValue = PInf, CurrentValue = Fin 20000,
     Returns = Fin 0, XIRR = Fin 0\<rparr>"

definition key_c :: item where
  "key_c = \<lparr>SchemeName = ''C'', Category = ''Equity'', SubCategory = ''Large Cap'',
     AMC = ''R'', Units = Fin 100, InvestedValue = Fin 8000, CurrentValue = Fin 10000,
     Returns = Fin 2000, XIRR = Fin 30\<rparr>"

text \<open>
  Rows with labels that are names inherited from \<open>Object.prototype\<close>: three schemes in the
  category \<open>constructor\<close>, a scheme named \<open>constructor\<close> in the group of \<open>fund_a\<close> and
  \<open>fund_b\<close>, and a row in the category \<open>__proto__\<close>.
\<close>

definition hid_a :: item where
  "hid_a = fund_a\<lparr>Category := ''constructor''\<rparr>"

definition hid_b :: item where
  "hid_b = fund_b\<lparr>Category := ''constructor''\<rparr>"

definition hid_c :: item where
  "hid_c = fund_c\<lparr>Category := ''constructor''\<rparr>"

definition fund_p :: item where
  "fund_p = fund_c\<lparr>SchemeName := ''constructor''\<rparr>"

definition proto_item :: item where
  "proto_item = fund_a\<lparr>Category := ''__proto__''\<rparr>"

section \<open>The ingestion normalizer (\<open>processRawRows\<close>)\<close>

text \<open>
  A cell of the grid, and a property value of a produced row object: a string, a number,
  \<open>null\<close>, or \<open>undefined\<close>. In a row of the grid \<open>VUndef\<close> is a hole of the array (an empty
  spreadsheet cell): reading it gives \<open>undefined\<close>, and \<open>map\<close> and \<open>forEach\<close> pass over it.
  The grid is an array of arrays, as both readers produce it.
\<close>

datatype jsval = VStr string | VNum jsnum | VNull | VUndef

subsection \<open>\<open>parseFloat\<close>\<close>

text \<open>
  \<open>parseFloat\<close> skips leading white space and reads the longest prefix that is a
  \<open>StrDecimalLiteral\<close>: an optional sign, then \<open>Infinity\<close> or decimal digits with an optional
  fraction and an optional exponent; without such a prefix the result is \<open>NaN\<close>. The value
  is the exact decimal value: as for all numbers here, its rounding to a double (and with it
  the overflow to \<open>Infinity\<close> of a literal beyond the largest double) is not modelled.
\<close>

definition pow10 :: "int \<Rightarrow> real" where
  "pow10 e = (if 0 \<le> e then 10 ^ nat e else 1 / 10 ^ nat (- e))"

definition exponent_part :: "string \<Rightarrow> int" where
  "exponent_part s =
     (case s of [] \<Rightarrow> 0
      | c # r \<Rightarrow>
          if c = CHR ''e'' \<or> c = CHR ''E'' then
            (case r of [] \<Rightarrow> 0
             | d # r' \<Rightarrow>
                 if d = CHR ''-'' then - int (digits_val (takeWhile is_digit r'))
                 else if d = CHR ''+'' then int (digits_val (takeWhile is_digit r'))
                 else int (digits_val (takeWhile is_digit r)))
          else 0)"

definition unsigned_literal :: "string \<Rightarrow> jsnum" where
  "unsigned_literal s =
     (if prefix ''Infinity'' s then PInf
      else
        (let ip = takeWhile is_digit s; r2 = dropWhile is_digit s;
             dot = (r2 \<noteq> [] \<and> hd r2 = CHR ''.'');
             fp = (if dot then takeWhile is_digit (tl r2) else []);
             r3 = (if dot then dropWhile is_digit (tl r2) else r2)
         in if ip = [] \<and> fp = [] then NaN
            else Fin ((real (digits_val ip) + real (digits_val fp) / 10 ^ length fp)
                      * pow10 (exponent_part r3))))"

definition parseFloat :: "string \<Rightarrow> jsnum" where
  "parseFloat s =
     (case trimStart s of
        [] \<Rightarrow> NaN
      | c # r \<Rightarrow>
          if c = CHR ''-'' then js_neg (unsigned_literal r)
          else if c = CHR ''+'' then unsigned_literal r
          else unsigned_literal (c # r))"

subsection \<open>\<open>JSON.stringify\<close> and \<open>String\<close> of a row's cells\<close>

text \<open>
  The decimal text of a finite number (\<open>Number::toString\<close>) is not determined by the
  exact-real model of numbers; it is the parameter \<open>numToString\<close> of the functions below.
\<close>

definition hex_digit :: "nat \<Rightarrow> char" where
  "hex_digit n = ''0123456789abcdef'' ! n"

definition json_escape :: "char \<Rightarrow> string" where
  "json_escape c =
     (if c = CHR 0x22 then [CHR 0x5C, CHR 0x22]
      else if c = CHR 0x5C then [CHR 0x5C, CHR 0x5C]
      else if c = CHR 0x08 then [CHR 0x5C, CHR ''b'']
      else if c = CHR 0x0C then [CHR 0x5C, CHR ''f'']
      else if c = CHR 0x0A then [CHR 0x5C, CHR ''n'']
      else if c = CHR 0x0D then [CHR 0x5C, CHR ''r'']
      else if c = CHR 0x09 then [CHR 0x5C, CHR ''t'']
      else if (of_char c :: nat) < 32
        then [CHR 0x5C, CHR ''u'', CHR ''0'', CHR ''0'',
              hex_digit ((of_char c :: nat) div 16), hex_digit ((of_char c :: nat) mod 16)]
      else [c])"

definition json_value :: "(real \<Rightarrow> string) \<Rightarrow> jsval \<Rightarrow> string" where
  "json_value numToString v =
     (case v of
        VStr s \<Rightarrow> [CHR 0x22] @ concat (map json_escape s) @ [CHR 0x22]
      | VNum (Fin x) \<Rightarrow> numToString x
      | VNum _ \<Rightarrow> ''null''
      | VNull \<Rightarrow> ''null''
      | VUndef \<Rightarrow> ''null'')"

fun join_comma :: "string list \<Rightarrow> string" where
  "join_comma [] = []"
| "join_comma [s] = s"
| "join_comma (s # t # r) = s @ '','' @ join_comma (t # r)"

definition JSON_stringify :: "(real \<Rightarrow> string) \<Rightarrow> jsval list \<Rightarrow> string" where
  "JSON_stringify numToString row = ''['' @ join_comma (map (json_value numToString) row) @ '']''"

definition js_String :: "(real \<Rightarrow> string) \<Rightarrow> jsval \<Rightarrow> string" where
  "js_String numToString v =
     (case v of
        VStr s \<Rightarrow> s
      | VNum (Fin x) \<Rightarrow> numToString x
      | VNum NaN \<Rightarrow> ''NaN''
      | VNum PInf \<Rightarrow> ''Infinity''
      | VNum NInf \<Rightarrow> ''-Infinity''
      | VNull \<Rightarrow> ''null''
      | VUndef \<Rightarrow> ''undefined'')"

subsection \<open>Header detection\<close>

definition is_header_row :: "(real \<Rightarrow> string) \<Rightarrow> jsval list \<Rightarrow> bool" where
  "is_header_row numToString row =
     (let rowStr = toLowerCase (JSON_stringify numToString row)
      in str_includes rowStr ''scheme name'' \<and> str_includes rowStr ''current value'')"

text \<open>The loop \<open>for (let i = 0; i < rows.length; i++)\<close>; \<open>None\<close> is \<open>headerIndex === -1\<close>.\<close>

fun headerIndex_from :: "(real \<Rightarrow> string) \<Rightarrow> nat \<Rightarrow> jsval list list \<Rightarrow> nat option" where
  "headerIndex_from numToString i [] = None"
| "headerIndex_from numToString i (r # rs) =
     (if is_header_row numToString r then Some i else headerIndex_from numToString (Suc i) rs)"

subsection \<open>Row objects\<close>

definition is_blank :: "jsval \<Rightarrow> bool" where
  "is_blank v = (v = VUndef \<or> v = VNull \<or> v = VStr [])"

text \<open>
  The coercion of a numeric column: \<open>0\<close> for \<open>undefined\<close>, \<open>null\<close> and the empty string,
  \<open>parseFloat\<close> of the stripped text for a string. For a number \<open>n\<close>, \<open>parseFloat(n)\<close> parses
  the decimal text of \<open>n\<close> and gives \<open>n\<close> back.
\<close>

definition to_number :: "(string \<Rightarrow> string) \<Rightarrow> jsval \<Rightarrow> jsval" where
  "to_number strip v =
     (if \<not> is_blank v
      then (case v of VStr s \<Rightarrow> VNum (parseFloat (strip s)) | VNum n \<Rightarrow> VNum n
            | VNull \<Rightarrow> VNum (Fin 0) | VUndef \<Rightarrow> VNum (Fin 0))
      else VNum (Fin 0))"

definition clean :: "jsval \<Rightarrow> jsval" where
  "clean v = (case v of VStr s \<Rightarrow> VStr (unquote (trim s)) | _ \<Rightarrow> v)"

definition cell_value :: "string \<Rightarrow> jsval \<Rightarrow> jsval" where
  "cell_value header v0 =
     (let v = clean v0;
          v1 = (if header \<in> set [''Invested Value'', ''Current Value'', ''Returns'', ''Units'']
                then to_number (remove_char CHR '','') v else v);
          v2 = (if header = ''XIRR''
                then to_number (\<lambda>s. remove_char CHR '','' (remove_char CHR ''%'' s)) v1 else v1)
      in v2)"

definition get_cell :: "jsval list \<Rightarrow> nat \<Rightarrow> jsval" where
  "get_cell row idx = (if idx < length row then row ! idx else VUndef)"

text \<open>
  \<open>headers.forEach((header, index) => ... rowObj[header] = val)\<close>; a header that is a hole
  (\<open>None\<close>) is passed over. The assignment creates or overwrites the own property, except
  under the header \<open>__proto__\<close>, where it calls the inherited setter and creates none.
\<close>

definition build_row :: "string option list \<Rightarrow> jsval list \<Rightarrow> jsval dict" where
  "build_row headers row =
     foldl (\<lambda>rowObj p.
              case snd p of
                None \<Rightarrow> rowObj
              | Some header \<Rightarrow>
                  if header = ''__proto__'' then rowObj
                  else dict_upd header (\<lambda>old. cell_value header (get_cell row (fst p))) rowObj)
       [] (zip [0..<length headers] headers)"

text \<open>Truthiness of \<open>rowObj['Scheme Name']\<close>; \<open>None\<close> is an absent property.\<close>

definition val_truthy :: "jsval option \<Rightarrow> bool" where
  "val_truthy v =
     (case v of None \<Rightarrow> False | Some (VStr s) \<Rightarrow> s \<noteq> [] | Some (VNum n) \<Rightarrow> truthy n
      | Some VNull \<Rightarrow> False | Some VUndef \<Rightarrow> False)"

definition header_names :: "(real \<Rightarrow> string) \<Rightarrow> jsval list \<Rightarrow> string option list" where
  "header_names numToString rawHeaders =
     map (\<lambda>h. case h of VUndef \<Rightarrow> None
                | _ \<Rightarrow> Some (unquote (trim (js_String numToString h)))) rawHeaders"

definition data_rows :: "string option list \<Rightarrow> jsval list list \<Rightarrow> jsval dict list" where
  "data_rows headers rs =
     concat (map (\<lambda>row. if length row < 2 then []
                         else (let rowObj = build_row headers row
                               in if val_truthy (map_of rowObj ''Scheme Name'') then [rowObj] else []))
                 rs)"

definition processRawRows :: "(real \<Rightarrow> string) \<Rightarrow> jsval list list \<Rightarrow> jsval dict list" where
  "processRawRows numToString rows =
     (case headerIndex_from numToString 0 rows of
        None \<Rightarrow> []
      | Some headerIndex \<Rightarrow>
          data_rows (header_names numToString (rows ! headerIndex)) (drop (Suc headerIndex) rows))"

subsection \<open>Notions for the statements about the normalizer\<close>

text \<open>The names of the five numeric columns, and the number the code stores for a cell.\<close>

definition numeric_fields :: "string set" where
  "numeric_fields = {''Units'', ''Invested Value'', ''Current Value'', ''Returns'', ''XIRR''}"

definition strip_for :: "string \<Rightarrow> string \<Rightarrow> string" where
  "strip_for header s =
     (if header = ''XIRR'' then remove_char CHR '','' (remove_char CHR ''%'' s)
      else remove_char CHR '','' s)"

definition number_of :: "string \<Rightarrow> jsval \<Rightarrow> jsnum" where
  "number_of header v =
     (case v of VStr s \<Rightarrow> (if s = [] then Fin 0 else parseFloat (strip_for header s))
      | VNum n \<Rightarrow> n | VNull \<Rightarrow> Fin 0 | VUndef \<Rightarrow> Fin 0)"

text \<open>
  The header test as the specification words it: the concatenation of the text of all
  cells, lower-cased, contains both substrings.
\<close>

definition spec_header_row :: "(real \<Rightarrow> string) \<Rightarrow> jsval list \<Rightarrow> bool" where
  "spec_header_row numToString row =
     (let t = toLowerCase (concat (map (js_String numToString) row))
      in str_includes t ''scheme name'' \<and> str_includes t ''current value'')"

text \<open>
  Sample grids. They hold text cells only, so the number-to-text parameter is never
  consulted; \<open>no_numbers\<close> fills it.
\<close>

definition no_numbers :: "real \<Rightarrow> string" where
  "no_numbers x = []"

definition header_row :: "jsval list" where
  "header_row = [VStr ''Scheme Name'', VStr ''Current Value'']"

definition split_header_row :: "jsval list" where
  "split_header_row = [VStr ''Scheme Name'', VStr ''Current '', VStr ''Value'']"


section \<open>Properties of the engine\<close>

subsection \<open>Arithmetic on finite numbers\<close>

lemma js_sub_Fin [simp]: "js_sub (Fin a) (Fin b) = Fin (a - b)"
  by (simp add: js_sub_def)

lemma Math_min_Fin [simp]: "Math_min (Fin a) (Fin b) = Fin (min a b)"
  by (simp add: Math_min_def min_def)

lemma Math_max_Fin [simp]: "Math_max (Fin a) (Fin b) = Fin (max a b)"
  by (simp add: Math_max_def max_def)

lemma js_or_zero_id: "x \<noteq> NaN \<Longrightarrow> js_or x (Fin 0) = x"
  by (simp add: js_or_def truthy_def)

lemma js_or_NaN: "js_or NaN y = y"
  by (simp add: js_or_def truthy_def)

lemma js_add_zero: "js_add x (Fin 0) = x"
  by (cases x) simp_all

lemma reduce_sum_cong:
  "(\<And>x. x \<in> set xs \<Longrightarrow> f x = g x) \<Longrightarrow> reduce_sum f xs = reduce_sum g xs"
  unfolding reduce_sum_def
  by (rule foldl_cong) simp_all

lemma reduce_sum_map: "reduce_sum f (map g xs) = reduce_sum (\<lambda>x. f (g x)) xs"
  by (simp add: reduce_sum_def foldl_map)

lemma foldl_or_zero:
  "foldl (\<lambda>acc c. js_add acc (js_or (f c) (Fin 0))) a xs =
     foldl (\<lambda>acc c. js_add acc (f c)) a (filter (\<lambda>c. f c \<noteq> NaN) xs)"
proof (induction xs arbitrary: a)
  case Nil
  then show ?case by simp
next
  case (Cons x xs)
  show ?case
  proof (cases "f x = NaN")
    case True
    then show ?thesis using Cons by (simp add: js_or_NaN js_add_zero)
  next
    case False
    then show ?thesis using Cons by (simp add: js_or_zero_id)
  qed
qed

lemma reduce_sum_or_zero:
  "reduce_sum (\<lambda>c. js_or (f c) (Fin 0)) xs = reduce_sum f (filter (\<lambda>c. f c \<noteq> NaN) xs)"
  unfolding reduce_sum_def by (rule foldl_or_zero)

subsection \<open>Projections of the result\<close>

lemma derive_sel [simp]:
  "CurrentValue (derive i) = CurrentValue i" "Returns (derive i) = Returns i"
  "InvestedValue (derive i) = InvestedValue i" "XIRR (derive i) = XIRR i"
  "Units (derive i) = Units i" "SchemeName (derive i) = SchemeName i"
  "Category (derive i) = Category i" "SubCategory (derive i) = SubCategory i"
  "AMC (derive i) = AMC i"
  by (simp_all add: derive_def Let_def)

lemma derive_labels [simp]:
  "cat_of (derive i) = cat_of i" "subCat_of (derive i) = subCat_of i"
  "amc_of (derive i) = amc_of i"
  by (simp_all add: cat_of_def subCat_of_def amc_of_def)

lemma derive_absReturn:
  "u_absReturn (derive i) =
     absReturn_of (js_or (CurrentValue i) (Fin 0)) (js_or (InvestedValue i) (Fin 0))"
  by (simp add: derive_def Let_def)

lemma kept_eta:
  "kept True = (\<lambda>i. js_ge (CurrentValue i) (Fin 5000))" "kept False = (\<lambda>i. True)"
  by (rule ext, simp add: kept_def)+

lemma below_5000_eta: "below_5000 = (\<lambda>i. js_lt (CurrentValue i) (Fin 5000))"
  by (rule ext) (simp add: below_5000_def)

lemma loss_making_eta: "loss_making = (\<lambda>i. js_lt (Returns i) (Fin 0))"
  by (rule ext) (simp add: loss_making_def)

lemma working_set_rows: "working_set sim (map derive h) = map derive (working_rows h sim)"
proof (cases sim)
  case True
  then show ?thesis
    by (simp add: working_set_def working_rows_def kept_eta filter_map comp_def)
next
  case False
  then show ?thesis
    by (simp add: working_set_def working_rows_def kept_eta)
qed

lemma working_rows_subset: "set (working_rows h sim) \<subseteq> set h"
  by (auto simp: working_rows_def)

lemma working_rows_length: "length (working_rows h sim) \<le> length h"
  by (simp add: working_rows_def)

lemma working_rows_True_not_NaN:
  "i \<in> set (working_rows h True) \<Longrightarrow> CurrentValue i \<noteq> NaN"
  by (auto simp: working_rows_def kept_def js_ge_def)

text \<open>The fields of a returned result, in terms of the state that the loop reaches.\<close>

lemma analysis_fields:
  assumes "analysis h sim = Inr res"
  shows "\<exists>st. run_pass (map derive (working_rows h sim)) = Inr st
     \<and> r_processedData res = map derive (working_rows h sim)
     \<and> r_lossMakers res = lossMakers st
     \<and> r_clutter res = clutter st
     \<and> r_simStats res =
         \<lparr>originalCount = length (map derive h),
          originalTotalVal = reduce_sum CurrentValue (map derive h),
          clutterCount = length (filter is_clutter (map derive h)),
          clutterVal = reduce_sum CurrentValue (filter is_clutter (map derive h))\<rparr>
     \<and> r_healthScore res =
         healthScore_of (length (filter is_clutter (map derive h)))
           (length (lossMakers st)) (length (map derive (working_rows h sim)))
     \<and> r_totalCurr res =
         reduce_sum (\<lambda>curr. js_or (CurrentValue curr) (Fin 0)) (map derive (working_rows h sim))
     \<and> r_totalInv res =
         reduce_sum (\<lambda>curr. js_or (InvestedValue curr) (Fin 0)) (map derive (working_rows h sim))
     \<and> r_totalReturns res = js_sub (r_totalCurr res) (r_totalInv res)
     \<and> r_comparisonData res = comparisonData_of (categoryXIRR st)
     \<and> r_categoryTree res = categoryTree_of (smartGroups st)
     \<and> r_consolidationPlan res = consolidationPlan_of (categoryTree_of (smartGroups st))"
proof (cases "run_pass (map derive (working_rows h sim))")
  case (Inl e)
  then show ?thesis using assms by (simp add: analysis_def Let_def working_set_rows)
next
  case (Inr st)
  then show ?thesis using assms by (auto simp: analysis_def Let_def working_set_rows)
qed

lemma analysis_returns_iff:
  "(\<exists>res. analysis h sim = Inr res) = (\<exists>st. run_pass (map derive (working_rows h sim)) = Inr st)"
  by (cases "run_pass (map derive (working_rows h sim))")
     (simp_all add: analysis_def Let_def working_set_rows)

lemma analysis_fails_iff:
  "(analysis h sim = Inl e) = (run_pass (map derive (working_rows h sim)) = Inl e)"
  by (cases "run_pass (map derive (working_rows h sim))")
     (simp_all add: analysis_def Let_def working_set_rows)

subsection \<open>The loop over the working set\<close>

lemma row_failure_subCat: "row_failure it = None \<Longrightarrow> \<not> inherited (subCat_of it)"
  by (auto simp: row_failure_def smartGroups_upd_def inherited_has_def split: if_splits)

lemma plain_labels_no_failure: "plain_labels it \<Longrightarrow> row_failure it = None"
  by (simp add: row_failure_def smartGroups_upd_def plain_labels_def)

lemma smartGroups_upd_eq:
  "smartGroups_upd (cat_of it) (subCat_of it) it sg =
     (case row_failure it of
        Some e \<Rightarrow> Inl e
      | None \<Rightarrow> Inr (if inherited (cat_of it) then sg
                     else dict_upd (cat_of it) (add_to_cat (subCat_of it) it) sg))"
  by (simp add: row_failure_def smartGroups_upd_def)

lemma step_Inr:
  assumes "step st it = Inr st'"
  shows "row_failure it = None
     \<and> lossMakers st' = lossMakers st @ filter loss_making [it]
     \<and> clutter st' = clutter st @ filter below_5000 [it]
     \<and> categoryXIRR st' =
         dict_upd (subCat_of it) (add_xirr (js_or (XIRR it) (Fin 0)) (CurrentValue it))
           (categoryXIRR st)
     \<and> smartGroups st' =
         (if inherited (cat_of it) then smartGroups st
          else dict_upd (cat_of it) (add_to_cat (subCat_of it) it) (smartGroups st))"
proof (cases "row_failure it")
  case None
  have n: "\<not> inherited (subCat_of it)" using None by (rule row_failure_subCat)
  show ?thesis
    using assms None n
    by (auto simp: step_def Let_def smartGroups_upd_eq xirr_upd_def loss_making_def
        below_5000_def)
next
  case (Some e)
  then show ?thesis using assms by (simp add: step_def Let_def smartGroups_upd_eq)
qed

lemma step_Inl: "(step st it = Inl e) = (row_failure it = Some e)"
  by (cases "row_failure it") (auto simp: step_def Let_def smartGroups_upd_eq)

lemma step_total: "row_failure it = None \<Longrightarrow> \<exists>st'. step st it = Inr st'"
  by (simp add: step_def Let_def smartGroups_upd_eq)

lemma dict_fold_simps [simp]:
  "dict_fold key g d [] = d"
  "dict_fold key g d (x # xs) = dict_fold key g (dict_upd (key x) (g x) d) xs"
  by (simp_all add: dict_fold_def)

lemma run_from_Inr:
  assumes "run_from st xs = Inr st'"
  shows "(\<forall>x\<in>set xs. row_failure x = None)
     \<and> lossMakers st' = lossMakers st @ filter loss_making xs
     \<and> clutter st' = clutter st @ filter below_5000 xs
     \<and> categoryXIRR st' =
         dict_fold subCat_of (\<lambda>it. add_xirr (js_or (XIRR it) (Fin 0)) (CurrentValue it))
           (categoryXIRR st) xs
     \<and> smartGroups st' =
         dict_fold cat_of (\<lambda>it. add_to_cat (subCat_of it) it) (smartGroups st)
           (filter (\<lambda>i. \<not> inherited (cat_of i)) xs)"
  using assms
proof (induction xs arbitrary: st)
  case Nil
  then show ?case by simp
next
  case (Cons x xs)
  show ?case
  proof (cases "step st x")
    case (Inl e)
    then show ?thesis using Cons.prems by simp
  next
    case (Inr st1)
    then have r: "run_from st1 xs = Inr st'" using Cons.prems by simp
    note s = step_Inr[OF Inr]
    note ih = Cons.IH[OF r]
    show ?thesis using s ih by simp
  qed
qed

lemma run_from_total:
  "\<forall>x\<in>set xs. row_failure x = None \<Longrightarrow> \<exists>st'. run_from st xs = Inr st'"
proof (induction xs arbitrary: st)
  case Nil
  then show ?case by simp
next
  case (Cons x xs)
  then have "row_failure x = None" by simp
  from step_total[OF this] obtain st1 where s: "step st x = Inr st1" by blast
  from Cons have "\<exists>st'. run_from st1 xs = Inr st'" by simp
  then show ?case by (simp add: s)
qed

lemma run_pass_returns_iff:
  "(\<exists>st. run_pass ws = Inr st) = (\<forall>x\<in>set ws. row_failure x = None)"
  unfolding run_pass_def using run_from_Inr run_from_total by blast

lemma run_pass_state:
  assumes "run_pass ws = Inr st"
  shows "lossMakers st = filter loss_making ws"
    and "clutter st = filter below_5000 ws"
    and "categoryXIRR st =
           dict_fold subCat_of (\<lambda>it. add_xirr (js_or (XIRR it) (Fin 0)) (CurrentValue it)) [] ws"
    and "smartGroups st =
           dict_fold cat_of (\<lambda>it. add_to_cat (subCat_of it) it) []
             (filter (\<lambda>i. \<not> inherited (cat_of i)) ws)"
    and "\<forall>x\<in>set ws. row_failure x = None"
  using run_from_Inr[OF assms[unfolded run_pass_def]] by (simp_all add: init_state_def)

lemma plain_rows_return:
  assumes "\<forall>i\<in>set h. plain_labels i"
  shows "\<exists>res. analysis h sim = Inr res"
proof -
  have "\<forall>x\<in>set (map derive (working_rows h sim)). row_failure x = None"
  proof
    fix x assume "x \<in> set (map derive (working_rows h sim))"
    then obtain i where i: "i \<in> set h" "x = derive i"
      using working_rows_subset[of h sim] by auto
    then have "plain_labels i" using assms by simp
    then have "plain_labels x" by (simp add: plain_labels_def i(2))
    then show "row_failure x = None" by (rule plain_labels_no_failure)
  qed
  then show ?thesis
    by (simp only: analysis_returns_iff run_pass_returns_iff)
qed

subsection \<open>Health score\<close>

lemma raw_score_bounds: "45 \<le> raw_score c l n \<and> raw_score c l n \<le> 100"
  unfolding raw_score_def by (auto simp: min_def)

lemma healthScore_pre:
  "score (healthScore_of c l n) = Math_max (Fin 0) (Math_round (Fin (raw_score c l n)))"
  by (simp add: healthScore_of_def Let_def raw_score_def algebra_simps)

lemma healthScore_raw:
  "score (healthScore_of c l n) = Fin (of_int \<lfloor>raw_score c l n + 1 / 2\<rfloor>)"
proof -
  have "45 \<le> raw_score c l n" using raw_score_bounds by blast
  then have "0 \<le> \<lfloor>raw_score c l n + 1 / 2\<rfloor>" by linarith
  then have m: "max 0 (of_int \<lfloor>raw_score c l n + 1 / 2\<rfloor> :: real)
                  = of_int \<lfloor>raw_score c l n + 1 / 2\<rfloor>"
    by simp
  show ?thesis using m by (simp add: healthScore_pre)
qed

lemma spec_raw: "spec_health_score c l n = \<lfloor>raw_score c l n + 1 / 2\<rfloor>"
proof -
  have b: "45 \<le> raw_score c l n \<and> raw_score c l n \<le> 100" by (rule raw_score_bounds)
  then have "max 0 (min 100 (raw_score c l n)) = raw_score c l n" by simp
  then show ?thesis unfolding spec_health_score_def raw_score_def by simp
qed

lemma spec_bounds: "0 \<le> spec_health_score c l n \<and> spec_health_score c l n \<le> 100"
proof -
  have b: "45 \<le> raw_score c l n \<and> raw_score c l n \<le> 100" by (rule raw_score_bounds)
  then have "0 \<le> \<lfloor>raw_score c l n + 1 / 2\<rfloor>" by linarith
  moreover from b have "\<lfloor>raw_score c l n + 1 / 2\<rfloor> \<le> 100" by linarith
  ultimately show ?thesis by (simp add: spec_raw)
qed

lemma healthScore_clean:
  assumes "n \<le> 20"
  shows "healthScore_of 0 0 n = \<lparr>score = Fin 100, label = ''Excellent''\<rparr>"
  using assms by (simp add: healthScore_of_def Let_def floor_eq_iff)

lemma filter_is_clutter_derive:
  "filter is_clutter (map derive h) = map derive (filter below_5000 h)"
  by (simp add: filter_map comp_def is_clutter_def below_5000_eta)

lemma filter_below_derive:
  "filter below_5000 (map derive h) = map derive (filter below_5000 h)"
  by (simp add: filter_map comp_def below_5000_eta)

lemma filter_loss_derive:
  "filter loss_making (map derive h) = map derive (filter loss_making h)"
  by (simp add: filter_map comp_def loss_making_eta)

text \<open>
  The score of a returned result in terms of the input: it is the specification's formula
  applied to the number of rows of the \<^emph>\<open>unfiltered\<close> input with current value below 5000,
  the number of rows of the working set with negative returns, and the size of the
  working set. It is an integer between 0 and 100, and it is 100, labelled "Excellent",
  for an input of at most 20 rows without such rows.
\<close>

lemma health_score_of_input:
  assumes "analysis h sim = Inr res"
  shows "score (r_healthScore res) =
     Fin (of_int (spec_health_score (length (filter below_5000 h))
                    (length (filter loss_making (working_rows h sim)))
                    (length (working_rows h sim))))"
    and "r_lossMakers res = map derive (filter loss_making (working_rows h sim))"
    and "r_clutter res = map derive (filter below_5000 (working_rows h sim))"
proof -
  from analysis_fields[OF assms] obtain st where
    st: "run_pass (map derive (working_rows h sim)) = Inr st"
    and l: "r_lossMakers res = lossMakers st" and c: "r_clutter res = clutter st"
    and hs: "r_healthScore res =
         healthScore_of (length (filter is_clutter (map derive h)))
           (length (lossMakers st)) (length (map derive (working_rows h sim)))"
    by blast
  show "r_lossMakers res = map derive (filter loss_making (working_rows h sim))"
    by (simp add: l run_pass_state(1)[OF st] filter_loss_derive)
  show "r_clutter res = map derive (filter below_5000 (working_rows h sim))"
    by (simp add: c run_pass_state(2)[OF st] filter_below_derive)
  show "score (r_healthScore res) =
     Fin (of_int (spec_health_score (length (filter below_5000 h))
                    (length (filter loss_making (working_rows h sim)))
                    (length (working_rows h sim))))"
    by (simp add: hs run_pass_state(1)[OF st] filter_loss_derive filter_is_clutter_derive
        healthScore_raw spec_raw)
qed

lemma health_score_clean_input:
  assumes "analysis h sim = Inr res" and "filter below_5000 h = []"
    and "filter loss_making h = []" and "length h \<le> 20"
  shows "r_healthScore res = \<lparr>score = Fin 100, label = ''Excellent''\<rparr>"
proof -
  from analysis_fields[OF assms(1)] obtain st where
    st: "run_pass (map derive (working_rows h sim)) = Inr st"
    and hs: "r_healthScore res =
         healthScore_of (length (filter is_clutter (map derive h)))
           (length (lossMakers st)) (length (map derive (working_rows h sim)))"
    by blast
  have "\<forall>i\<in>set (working_rows h sim). \<not> loss_making i"
    using assms(3) working_rows_subset[of h sim] by (auto simp: filter_empty_conv)
  then have l0: "filter loss_making (working_rows h sim) = []"
    by (simp add: filter_empty_conv)
  have n: "length (working_rows h sim) \<le> 20"
    using assms(4) working_rows_length[of h sim] by simp
  show ?thesis
    using n
    by (simp add: hs run_pass_state(1)[OF st] filter_loss_derive filter_is_clutter_derive
        assms(2) l0 healthScore_clean)
qed

lemmas pass_eval = run_pass_def init_state_def step_def smartGroups_upd_def inherited_def
  inherited_has_def proto_names_def function_names_def object_statics_def tally_upd_def
  add_value_def xirr_upd_def funds_upd_def Let_def cat_of_def subCat_of_def amc_of_def
  str_or_def

lemmas entries_eval = own_entries_def array_index_def is_digit_def digit_val_def

lemmas eval_simps = analysis_def working_set_def pass_eval entries_eval add_xirr_def
  xirr_counts_def js_or_def truthy_def isNaN_def comparisonData_of_def comparison_entry_def
  js_sort_def benchKey_of_def BENCHMARKS_def js_gt_def inf_of_sign_def floor_eq_iff derive_def
  is_clutter_def js_ge_def reduce_sum_def absReturn_of_def

lemmas tree_eval = consolidationPlan_of_def categoryTree_of_def cat_node_def sub_node_def
  plan_entry_def rank_key_def add_to_cat_def add_to_group_def add_fund_def new_fund_def
  merge_fund_def tally_num_def healthScore_of_def

text \<open>
  C6. With \<open>simulateCleanup\<close> on and the rows \<open>small_item\<close> (current value 4500) and
  \<open>loss_item\<close> (current value 6000, negative returns), the working set is \<open>loss_item\<close>
  alone: it holds no row below 5000 and one loss-maker, so that the formula of the claim
  gives \<open>round(100 - 0 - 1.5) = 99\<close>. The score of the result is 97: the clutter penalty
  is taken from the unfiltered rows.
\<close>

theorem score_counts_unfiltered_clutter:
  "map_sum id (\<lambda>r. score (r_healthScore r)) (analysis [small_item, loss_item] True) = Inr (Fin 97)
   \<and> working_rows [small_item, loss_item] True = [loss_item]
   \<and> spec_health_score (length (filter below_5000 (working_rows [small_item, loss_item] True)))
        (length (filter loss_making (working_rows [small_item, loss_item] True)))
        (length (working_rows [small_item, loss_item] True)) = 99"
proof -
  have w: "working_rows [small_item, loss_item] True = [loss_item]"
    by (simp add: working_rows_def kept_def js_ge_def small_item_def loss_item_def)
  have s: "spec_health_score (length (filter below_5000 [loss_item]))
        (length (filter loss_making [loss_item])) (length [loss_item]) = 99"
    by (simp add: below_5000_def loss_making_def loss_item_def spec_health_score_def
        floor_eq_iff)
  have a: "map_sum id (\<lambda>r. score (r_healthScore r)) (analysis [small_item, loss_item] True)
      = Inr (Fin 97)"
    by (simp add: eval_simps tree_eval small_item_def loss_item_def)
  show ?thesis using w s a by simp
qed

subsection \<open>Simulation statistics and totals\<close>

text \<open>
  The \<open>simStats\<close> of a returned result are those of the unfiltered input, whatever
  \<open>simulateCleanup\<close> is; so they agree whenever both calls return.
\<close>

lemma simStats_of_input:
  assumes "analysis h sim = Inr res"
  shows "r_simStats res =
     \<lparr>originalCount = length h, originalTotalVal = reduce_sum CurrentValue h,
      clutterCount = length (filter below_5000 h),
      clutterVal = reduce_sum CurrentValue (filter below_5000 h)\<rparr>"
proof -
  from analysis_fields[OF assms] have "r_simStats res =
         \<lparr>originalCount = length (map derive h),
          originalTotalVal = reduce_sum CurrentValue (map derive h),
          clutterCount = length (filter is_clutter (map derive h)),
          clutterVal = reduce_sum CurrentValue (filter is_clutter (map derive h))\<rparr>"
    by blast
  then show ?thesis
    by (simp add: filter_is_clutter_derive reduce_sum_map)
qed

lemma simStats_agree:
  assumes "analysis h True = Inr a" and "analysis h False = Inr b"
  shows "r_simStats a = r_simStats b"
  by (simp add: simStats_of_input[OF assms(1)] simStats_of_input[OF assms(2)])

text \<open>
  C8. For the single row \<open>ctor_item\<close>, whose sub-category is \<open>constructor\<close> and whose current
  value is 4500, the call with \<open>simulateCleanup\<close> on returns (the working set is empty),
  with the \<open>simStats\<close> of the one unfiltered row, while the call with \<open>simulateCleanup\<close> off
  throws a \<open>TypeError\<close> in the loop and returns no \<open>simStats\<close> at all.
\<close>

theorem simStats_lost_to_TypeError:
  "map_sum id r_simStats (analysis [ctor_item] True) =
     Inr \<lparr>originalCount = 1, originalTotalVal = Fin 4500, clutterCount = 1,
          clutterVal = Fin 4500\<rparr>
   \<and> analysis [ctor_item] False = Inl TypeError"
  by (simp add: eval_simps tree_eval ctor_item_def)

lemma foldl_add_Fin:
  "\<forall>x\<in>set xs. \<exists>v. f x = Fin v \<Longrightarrow>
   foldl (\<lambda>acc c. js_add acc (f c)) (Fin a) xs = Fin (a + (\<Sum>x\<leftarrow>xs. num_val (f x)))"
proof (induction xs arbitrary: a)
  case Nil
  then show ?case by simp
next
  case (Cons x xs)
  then obtain v where v: "f x = Fin v" by auto
  have "foldl (\<lambda>acc c. js_add acc (f c)) (Fin (a + v)) xs
      = Fin (a + v + (\<Sum>x\<leftarrow>xs. num_val (f x)))"
    using Cons by simp
  then show ?case by (simp add: v num_val_def add.assoc)
qed

lemma reduce_sum_Fin:
  "\<forall>x\<in>set xs. \<exists>v. f x = Fin v \<Longrightarrow> reduce_sum f xs = Fin (\<Sum>x\<leftarrow>xs. num_val (f x))"
  unfolding reduce_sum_def using foldl_add_Fin[of xs f 0] by simp

lemma filter_not_NaN_id:
  "\<forall>x\<in>set xs. f x \<noteq> NaN \<Longrightarrow> filter (\<lambda>c. f c \<noteq> NaN) xs = xs"
  by (simp add: filter_id_conv)

text \<open>
  C9 (as amended). For every list of rows and either value of \<open>simulateCleanup\<close>, when the
  analysis returns, \<open>totalReturns\<close> is \<open>totalCurr - totalInv\<close>, and \<open>totalCurr\<close> is the sum of
  \<open>Current Value\<close> over those rows of the working set whose current value is a number: a
  row whose current value is \<open>NaN\<close> or absent counts as \<open>0\<close>. (Likewise \<open>totalInv\<close>.) Hence
  \<open>totalCurr\<close> is the sum over the whole working set when \<open>simulateCleanup\<close> is on or no
  current value is \<open>NaN\<close>, and the exact sum \<open>\<Sum>\<close> of the values when they are finite.
\<close>

theorem totals_exact:
  assumes "analysis h sim = Inr res"
  shows "r_processedData res = map derive (working_rows h sim)
   \<and> r_totalReturns res = js_sub (r_totalCurr res) (r_totalInv res)
   \<and> r_totalCurr res =
       reduce_sum CurrentValue (filter (\<lambda>i. CurrentValue i \<noteq> NaN) (working_rows h sim))
   \<and> r_totalInv res =
       reduce_sum InvestedValue (filter (\<lambda>i. InvestedValue i \<noteq> NaN) (working_rows h sim))
   \<and> (sim \<or> (\<forall>i\<in>set h. CurrentValue i \<noteq> NaN) \<longrightarrow>
        r_totalCurr res = reduce_sum CurrentValue (working_rows h sim))
   \<and> ((\<forall>i\<in>set h. \<exists>v. CurrentValue i = Fin v) \<longrightarrow>
        r_totalCurr res = Fin (\<Sum>i\<leftarrow>working_rows h sim. num_val (CurrentValue i)))"
proof -
  let ?w = "working_rows h sim"
  from analysis_fields[OF assms] have
    pd: "r_processedData res = map derive ?w"
    and tc: "r_totalCurr res = reduce_sum (\<lambda>curr. js_or (CurrentValue curr) (Fin 0)) (map derive ?w)"
    and ti: "r_totalInv res = reduce_sum (\<lambda>curr. js_or (InvestedValue curr) (Fin 0)) (map derive ?w)"
    and tr: "r_totalReturns res = js_sub (r_totalCurr res) (r_totalInv res)"
    by blast+
  have c: "r_totalCurr res = reduce_sum CurrentValue (filter (\<lambda>i. CurrentValue i \<noteq> NaN) ?w)"
    by (simp add: tc reduce_sum_map reduce_sum_or_zero filter_map comp_def)
  have i: "r_totalInv res = reduce_sum InvestedValue (filter (\<lambda>i. InvestedValue i \<noteq> NaN) ?w)"
    by (simp add: ti reduce_sum_map reduce_sum_or_zero filter_map comp_def)
  have nn: "\<forall>x\<in>set ?w. CurrentValue x \<noteq> NaN" if "sim \<or> (\<forall>i\<in>set h. CurrentValue i \<noteq> NaN)"
  proof (cases sim)
    case True
    then show ?thesis by (auto dest: working_rows_True_not_NaN)
  next
    case False
    then show ?thesis using that working_rows_subset[of h sim] by auto
  qed
  have a: "r_totalCurr res = reduce_sum CurrentValue ?w"
    if "sim \<or> (\<forall>i\<in>set h. CurrentValue i \<noteq> NaN)"
    using filter_not_NaN_id[OF nn[OF that]] c by simp
  have b: "r_totalCurr res = Fin (\<Sum>i\<leftarrow>?w. num_val (CurrentValue i))"
    if f: "\<forall>i\<in>set h. \<exists>v. CurrentValue i = Fin v"
  proof -
    have n: "\<forall>i\<in>set h. CurrentValue i \<noteq> NaN" using f by auto
    have "\<forall>x\<in>set ?w. \<exists>v. CurrentValue x = Fin v"
      using f working_rows_subset[of h sim] by auto
    then have "reduce_sum CurrentValue ?w = Fin (\<Sum>i\<leftarrow>?w. num_val (CurrentValue i))"
      by (rule reduce_sum_Fin)
    then show ?thesis using a n by simp
  qed
  show ?thesis using pd tr c i a b by blast
qed

lemma demo_nan_returns:
  "analysis [demo_item, nan_item] False = Inr (projr (analysis [demo_item, nan_item] False))"
proof -
  have "\<forall>i\<in>set [demo_item, nan_item]. plain_labels i"
    by (simp add: plain_labels_def pass_eval demo_item_def nan_item_def)
  from plain_rows_return[OF this] obtain res where
    "analysis [demo_item, nan_item] False = Inr res" by blast
  then show ?thesis by simp
qed

theorem totals_exact_witness:
  "r_totalCurr (projr (analysis [demo_item, nan_item] False)) = Fin 75000
   \<and> r_totalInv (projr (analysis [demo_item, nan_item] False)) = Fin 51000
   \<and> r_totalReturns (projr (analysis [demo_item, nan_item] False)) = Fin 24000"
  using totals_exact [OF demo_nan_returns]
  by (simp add: working_rows_def kept_def reduce_sum_def demo_item_def nan_item_def)

text \<open>
  The claim as written fails for a row without a numeric current value: for \<open>demo_item\<close>
  (current value 75000) and \<open>nan_item\<close> (current value \<open>NaN\<close>) the sum of \<open>Current Value\<close>
  over the working set is \<open>NaN\<close>, while \<open>totalCurr\<close> is 75000.
\<close>

theorem nan_current_value_counts_as_zero:
  "map_sum id r_totalCurr (analysis [demo_item, nan_item] False) = Inr (Fin 75000)
   \<and> map_sum id (\<lambda>r. reduce_sum CurrentValue (r_processedData r))
       (analysis [demo_item, nan_item] False) = Inr NaN
   \<and> reduce_sum CurrentValue (working_rows [demo_item, nan_item] False) = NaN"
  by (simp add: eval_simps tree_eval working_rows_def kept_def demo_item_def nan_item_def)

subsection \<open>Cleanup simulation and the score\<close>

text \<open>
  With \<open>simulateCleanup\<close> on, the result is that of the analysis, without simulation, of
  the rows that pass the filter \<open>Current Value >= 5000\<close>, except for \<open>simStats\<close> and for the
  clutter count that enters the score, which are those of the unfiltered rows.
\<close>

lemma working_rows_filter:
  "working_rows (filter (\<lambda>i. js_ge (CurrentValue i) (Fin 5000)) h) False = working_rows h True"
  by (simp add: working_rows_def kept_eta)

lemma cleanup_uses_working_set:
  "analysis h True =
     map_sum id
       (\<lambda>r. r\<lparr>r_healthScore :=
                 healthScore_of (length (filter is_clutter (map derive h)))
                   (length (r_lossMakers r)) (length (r_processedData r)),
               r_simStats :=
                 \<lparr>originalCount = length (map derive h),
                  originalTotalVal = reduce_sum CurrentValue (map derive h),
                  clutterCount = length (filter is_clutter (map derive h)),
                  clutterVal = reduce_sum CurrentValue (filter is_clutter (map derive h))\<rparr>\<rparr>)
       (analysis (filter (\<lambda>i. js_ge (CurrentValue i) (Fin 5000)) h) False)"
proof -
  have w: "working_set True (map derive h) =
      working_set False (map derive (filter (\<lambda>i. js_ge (CurrentValue i) (Fin 5000)) h))"
    by (simp add: working_set_def filter_map comp_def)
  show ?thesis
    unfolding analysis_def Let_def w
    by (cases "run_pass (working_set False
          (map derive (filter (\<lambda>i. js_ge (CurrentValue i) (Fin 5000)) h)))") simp_all
qed

text \<open>
  C2. With \<open>simulateCleanup\<close> on and the single row \<open>small_item\<close> (current value 4500), the
  working set, its clutter list and its loss-makers are empty, yet the score is 98: the
  clutter penalty is taken from \<open>clutterItems\<close>, the clutter of the unfiltered rows. The
  score of the working set's own counts would be 100.
\<close>

theorem cleanup_score_keeps_clutter_penalty:
  "map_sum id r_processedData (analysis [small_item] True) = Inr []
   \<and> map_sum id r_clutter (analysis [small_item] True) = Inr []
   \<and> map_sum id r_lossMakers (analysis [small_item] True) = Inr []
   \<and> map_sum id (\<lambda>r. score (r_healthScore r)) (analysis [small_item] True) = Inr (Fin 98)
   \<and> map_sum id (\<lambda>r. score (healthScore_of (length (r_clutter r)) (length (r_lossMakers r))
                              (length (r_processedData r))))
       (analysis [small_item] True) = Inr (Fin 100)"
  by (simp add: eval_simps tree_eval small_item_def)

subsection \<open>Sorting and dictionaries\<close>

lemma mset_sort_insert: "mset (sort_insert cmp x ys) = add_mset x (mset ys)"
  by (induction ys) simp_all

lemma mset_js_sort: "mset (js_sort cmp xs) = mset xs"
  by (induction xs) (simp_all add: js_sort_def mset_sort_insert)

lemma set_js_sort [simp]: "set (js_sort cmp xs) = set xs"
  using mset_js_sort[of cmp xs] by (metis set_mset_mset)

lemma length_js_sort [simp]: "length (js_sort cmp xs) = length xs"
  using mset_js_sort[of cmp xs] by (metis size_mset)

lemma distinct_map_js_sort: "distinct (map f (js_sort cmp xs)) = distinct (map f xs)"
proof -
  have "mset (map f (js_sort cmp xs)) = mset (map f xs)"
    by (simp add: mset_js_sort)
  then show ?thesis by (rule mset_eq_imp_distinct_iff)
qed

lemma mset_own_entries: "mset (own_entries d) = mset d"
  by (simp add: own_entries_def)

lemma set_own_entries [simp]: "set (own_entries d) = set d"
  using mset_own_entries[of d] by (metis set_mset_mset)

lemma length_own_entries [simp]: "length (own_entries d) = length d"
  using mset_own_entries[of d] by (metis size_mset)

lemma distinct_map_own_entries: "distinct (map f (own_entries d)) = distinct (map f d)"
proof -
  have "mset (map f (own_entries d)) = mset (map f d)"
    by (simp only: mset_map mset_own_entries)
  then show ?thesis by (rule mset_eq_imp_distinct_iff)
qed

lemma map_of_dict_upd:
  "map_of (dict_upd k f d) k' = (if k' = k then Some (f (map_of d k)) else map_of d k')"
  by (induction d) auto

lemma keys_dict_upd:
  "map fst (dict_upd k f d) = (if k \<in> set (map fst d) then map fst d else map fst d @ [k])"
proof (induction d)
  case Nil
  then show ?case by simp
next
  case (Cons a d)
  then show ?case by (cases a) auto
qed

lemma set_keys_dict_upd: "set (map fst (dict_upd k f d)) = insert k (set (map fst d))"
  by (auto simp: keys_dict_upd)

lemma distinct_dict_upd:
  "distinct (map fst d) \<Longrightarrow> distinct (map fst (dict_upd k f d))"
  by (simp add: keys_dict_upd)

lemma map_of_dict_fold:
  "map_of (dict_fold key g d xs) k =
     foldl (\<lambda>old x. Some (g x old)) (map_of d k) (filter (\<lambda>x. key x = k) xs)"
  by (induction xs arbitrary: d) (simp_all add: map_of_dict_upd)

lemma keys_dict_fold:
  "set (map fst (dict_fold key g d xs)) = set (map fst d) \<union> key ` set xs"
proof (induction xs arbitrary: d)
  case Nil
  then show ?case by simp
next
  case (Cons x xs)
  have "set (map fst (dict_fold key g d (x # xs)))
      = set (map fst (dict_upd (key x) (g x) d)) \<union> key ` set xs"
    using Cons.IH by simp
  also have "\<dots> = insert (key x) (set (map fst d)) \<union> key ` set xs"
    by (simp only: set_keys_dict_upd)
  finally show ?case by auto
qed

lemma distinct_dict_fold:
  "distinct (map fst d) \<Longrightarrow> distinct (map fst (dict_fold key g d xs))"
  by (induction xs arbitrary: d) (simp_all add: distinct_dict_upd)

lemma xirr_counts_or: "xirr_counts (js_or x (Fin 0)) = (x \<noteq> Fin 0 \<and> x \<noteq> NaN)"
  by (auto simp: xirr_counts_def js_or_def truthy_def isNaN_def)

lemma add_xirr_step:
  "add_xirr (js_or (XIRR y) (Fin 0)) (CurrentValue y) (Some a) =
     (if counted y
      then \<lparr>sumProduct = js_add (sumProduct a) (js_mul (XIRR y) (CurrentValue y)),
            sumWeight = js_add (sumWeight a) (CurrentValue y)\<rparr>
      else a)"
proof -
  have c: "xirr_counts (js_or (XIRR y) (Fin 0)) = counted y"
    by (simp add: xirr_counts_or counted_def)
  have v: "counted y \<Longrightarrow> js_or (XIRR y) (Fin 0) = XIRR y"
    by (simp add: counted_def js_or_def truthy_def)
  show ?thesis
    by (simp add: add_xirr_def Let_def c v)
qed

lemma add_xirr_fold_Some:
  "foldl (\<lambda>old x. Some (add_xirr (js_or (XIRR x) (Fin 0)) (CurrentValue x) old)) (Some a) ys =
     Some \<lparr>sumProduct = foldl (\<lambda>acc x. js_add acc (js_mul (XIRR x) (CurrentValue x)))
                           (sumProduct a) (filter counted ys),
           sumWeight = foldl (\<lambda>acc x. js_add acc (CurrentValue x))
                           (sumWeight a) (filter counted ys)\<rparr>"
proof (induction ys arbitrary: a)
  case Nil
  then show ?case by simp
next
  case (Cons y ys)
  show ?case
    by (simp add: add_xirr_step Cons.IH)
qed

lemma add_xirr_None:
  "add_xirr x c None = add_xirr x c (Some \<lparr>sumProduct = Fin 0, sumWeight = Fin 0\<rparr>)"
  by (simp add: add_xirr_def)

lemma add_xirr_fold_None:
  "foldl (\<lambda>old x. Some (add_xirr (js_or (XIRR x) (Fin 0)) (CurrentValue x) old)) None ys =
     (if ys = [] then None else
      Some \<lparr>sumProduct = reduce_sum (\<lambda>x. js_mul (XIRR x) (CurrentValue x)) (filter counted ys),
            sumWeight = reduce_sum CurrentValue (filter counted ys)\<rparr>)"
proof (cases ys)
  case Nil
  then show ?thesis by simp
next
  case (Cons y ys')
  have "foldl (\<lambda>old x. Some (add_xirr (js_or (XIRR x) (Fin 0)) (CurrentValue x) old)) None (y # ys')
      = foldl (\<lambda>old x. Some (add_xirr (js_or (XIRR x) (Fin 0)) (CurrentValue x) old))
          (Some \<lparr>sumProduct = Fin 0, sumWeight = Fin 0\<rparr>) (y # ys')"
    by (simp add: add_xirr_None)
  then show ?thesis
    unfolding Cons by (simp only: add_xirr_fold_Some reduce_sum_def) simp
qed

subsection \<open>The weighted-XIRR table and the benchmark comparison\<close>

lemma categoryXIRR_run_pass:
  assumes "run_pass ws = Inr st"
  shows "map_of (categoryXIRR st) s =
     (if s \<in> subCat_of ` set ws
      then Some \<lparr>sumProduct = xirr_product ws s, sumWeight = xirr_weight ws s\<rparr>
      else None)"
proof -
  have e: "(filter (\<lambda>i. subCat_of i = s) ws = []) = (s \<notin> subCat_of ` set ws)"
    by (auto simp: filter_empty_conv)
  have "map_of (categoryXIRR st) s =
      foldl (\<lambda>old x. Some (add_xirr (js_or (XIRR x) (Fin 0)) (CurrentValue x) old)) None
        (filter (\<lambda>i. subCat_of i = s) ws)"
    by (simp add: run_pass_state(3)[OF assms] map_of_dict_fold)
  then show ?thesis
    by (simp add: add_xirr_fold_None e xirr_product_def xirr_weight_def)
qed

lemma categoryXIRR_distinct:
  assumes "run_pass ws = Inr st"
  shows "distinct (map fst (categoryXIRR st))"
  unfolding run_pass_state(3)[OF assms]
  by (rule distinct_dict_fold) simp

lemma benchKey_in_table: "\<exists>b. map_of BENCHMARKS (benchKey_of s) = Some b"
proof (cases "map_of BENCHMARKS s")
  case None
  then show ?thesis by (simp add: benchKey_of_def) (simp add: BENCHMARKS_def)
next
  case (Some b)
  then show ?thesis by (simp add: benchKey_of_def)
qed

lemma comparison_entry_eq:
  "comparison_entry (s, a) =
     (if js_gt (sumWeight a) (Fin 0)
      then [\<lparr>category = s, myXIRR = toFixed2 (js_div (sumProduct a) (sumWeight a)),
             benchXIRR = bench_return (the (map_of BENCHMARKS (benchKey_of s))),
             benchName = bench_name (the (map_of BENCHMARKS (benchKey_of s))),
             alpha = toFixed2 (js_sub (js_div (sumProduct a) (sumWeight a))
                        (bench_return (the (map_of BENCHMARKS (benchKey_of s))))),
             weight = sumWeight a\<rparr>]
      else [])"
proof -
  obtain b where "map_of BENCHMARKS (benchKey_of s) = Some b"
    using benchKey_in_table by blast
  then show ?thesis by (simp add: comparison_entry_def Let_def)
qed

lemma map_category_entries:
  "map category (concat (map comparison_entry cx)) =
     map fst (filter (\<lambda>e. js_gt (sumWeight (snd e)) (Fin 0)) cx)"
proof (induction cx)
  case Nil
  then show ?case by simp
next
  case (Cons e cx)
  then show ?case by (cases e) (simp add: comparison_entry_eq)
qed

lemma entry_in_concat:
  "e \<in> set (concat (map comparison_entry cx)) \<Longrightarrow>
     \<exists>a. (category e, a) \<in> set cx \<and> js_gt (sumWeight a) (Fin 0) \<and>
         e \<in> set (comparison_entry (category e, a))"
  by (auto simp: comparison_entry_eq split: if_splits)

lemma entry_fields:
  assumes st: "run_pass ws = Inr st"
    and "e \<in> set (comparisonData_of (categoryXIRR st))"
  shows "category e \<in> subCat_of ` set ws
       \<and> js_gt (xirr_weight ws (category e)) (Fin 0)
       \<and> weight e = xirr_weight ws (category e)
       \<and> myXIRR e = toFixed2 (js_div (xirr_product ws (category e)) (xirr_weight ws (category e)))
       \<and> (\<exists>b. map_of BENCHMARKS (benchKey_of (category e)) = Some b
              \<and> benchXIRR e = bench_return b \<and> benchName e = bench_name b
              \<and> alpha e = toFixed2 (js_sub (js_div (xirr_product ws (category e))
                                               (xirr_weight ws (category e)))
                                       (bench_return b)))"
proof -
  let ?cx = "categoryXIRR st"
  from assms(2) have "e \<in> set (concat (map comparison_entry (own_entries ?cx)))"
    by (simp add: comparisonData_of_def)
  then obtain a where a0: "(category e, a) \<in> set (own_entries ?cx)"
      and a2: "js_gt (sumWeight a) (Fin 0)"
      and a3: "e \<in> set (comparison_entry (category e, a))"
    using entry_in_concat by blast
  from a0 have a1: "(category e, a) \<in> set ?cx" by simp
  from a1 have m: "map_of ?cx (category e) = Some a"
    using categoryXIRR_distinct[OF st] by simp
  then have in_ws: "category e \<in> subCat_of ` set ws"
    and av: "a = \<lparr>sumProduct = xirr_product ws (category e),
                  sumWeight = xirr_weight ws (category e)\<rparr>"
    by (auto simp: categoryXIRR_run_pass[OF st] split: if_splits)
  obtain b where b: "map_of BENCHMARKS (benchKey_of (category e)) = Some b"
    using benchKey_in_table by blast
  from a3 a2 have ev: "e = \<lparr>category = category e,
        myXIRR = toFixed2 (js_div (sumProduct a) (sumWeight a)),
        benchXIRR = bench_return b, benchName = bench_name b,
        alpha = toFixed2 (js_sub (js_div (sumProduct a) (sumWeight a)) (bench_return b)),
        weight = sumWeight a\<rparr>"
    by (simp add: comparison_entry_eq b)
  have w: "weight e = sumWeight a" by (subst ev) simp
  have my: "myXIRR e = toFixed2 (js_div (sumProduct a) (sumWeight a))" by (subst ev) simp
  have bx: "benchXIRR e = bench_return b" by (subst ev) simp
  have bn: "benchName e = bench_name b" by (subst ev) simp
  have al: "alpha e = toFixed2 (js_sub (js_div (sumProduct a) (sumWeight a)) (bench_return b))"
    by (subst ev) simp
  have sp: "sumProduct a = xirr_product ws (category e)" by (simp add: av)
  have sw: "sumWeight a = xirr_weight ws (category e)" by (simp add: av)
  show ?thesis
    using in_ws a2 w my bx bn al b unfolding sp sw by blast
qed

lemma fst_filter_iff:
  "(s \<in> fst ` set (filter (\<lambda>e. P (snd e)) cx)) = (\<exists>a. (s, a) \<in> set cx \<and> P a)"
proof
  assume "s \<in> fst ` set (filter (\<lambda>e. P (snd e)) cx)"
  then obtain p where p: "p \<in> set cx" "P (snd p)" "s = fst p" by auto
  then have "(s, snd p) \<in> set cx" by simp
  with p(2) show "\<exists>a. (s, a) \<in> set cx \<and> P a" by blast
next
  assume "\<exists>a. (s, a) \<in> set cx \<and> P a"
  then obtain a where a: "(s, a) \<in> set cx" "P a" by blast
  then have "(s, a) \<in> set (filter (\<lambda>e. P (snd e)) cx)" by simp
  then show "s \<in> fst ` set (filter (\<lambda>e. P (snd e)) cx)"
    by (metis fst_conv image_eqI)
qed

lemma categories_of_comparison:
  assumes st: "run_pass ws = Inr st"
  shows "(s \<in> category ` set (comparisonData_of (categoryXIRR st))) =
     (s \<in> subCat_of ` set ws \<and> js_gt (xirr_weight ws s) (Fin 0))"
proof -
  let ?cx = "categoryXIRR st"
  have "category ` set (comparisonData_of ?cx) =
      set (map category (concat (map comparison_entry (own_entries ?cx))))"
    by (simp add: comparisonData_of_def)
  also have "\<dots> = fst ` set (filter (\<lambda>e. js_gt (sumWeight (snd e)) (Fin 0)) (own_entries ?cx))"
    by (simp only: map_category_entries set_map)
  finally have "(s \<in> category ` set (comparisonData_of ?cx)) =
      (\<exists>a. (s, a) \<in> set (own_entries ?cx) \<and> js_gt (sumWeight a) (Fin 0))"
    using fst_filter_iff[of s "\<lambda>a. js_gt (sumWeight a) (Fin 0)" "own_entries ?cx"] by simp
  also have "\<dots> = (\<exists>a. map_of ?cx s = Some a \<and> js_gt (sumWeight a) (Fin 0))"
    using categoryXIRR_distinct[OF st] by simp
  also have "\<dots> = (s \<in> subCat_of ` set ws \<and> js_gt (xirr_weight ws s) (Fin 0))"
    by (simp add: categoryXIRR_run_pass[OF st])
  finally show ?thesis .
qed

lemma comparison_distinct:
  assumes st: "run_pass ws = Inr st"
  shows "distinct (map category (comparisonData_of (categoryXIRR st)))"
proof -
  have "distinct (map fst (own_entries (categoryXIRR st)))"
    by (simp only: distinct_map_own_entries categoryXIRR_distinct[OF st])
  then show ?thesis
    unfolding comparisonData_of_def distinct_map_js_sort map_category_entries
    by (rule distinct_map_filter)
qed

lemma demo_returns:
  "analysis [demo_item] False = Inr (projr (analysis [demo_item] False))"
proof -
  have "\<forall>i\<in>set [demo_item]. plain_labels i"
    by (simp add: plain_labels_def pass_eval demo_item_def)
  from plain_rows_return[OF this] obtain res where
    "analysis [demo_item] False = Inr res" by blast
  then show ?thesis by simp
qed

lemma demo_comparison:
  "r_comparisonData (projr (analysis [demo_item] False)) =
     [\<lparr>category = ''Large Cap'', myXIRR = Fin (31 / 2), benchXIRR = Fin (27 / 2),
       benchName = ''Nifty 50'', alpha = Fin 2, weight = Fin 75000\<rparr>]"
  by (simp add: eval_simps tree_eval demo_item_def)




text \<open>
  C3 (as amended). For every entry of \<open>comparisonData\<close>, \<open>alpha\<close> is the difference of the
  unrounded weighted XIRR and the benchmark return, rounded once to two decimals.
\<close>

theorem alpha_rounds_difference:
  assumes "analysis h sim = Inr res"
  shows "\<forall>e\<in>set (r_comparisonData res).
     \<exists>b. map_of BENCHMARKS (benchKey_of (category e)) = Some b \<and> benchXIRR e = bench_return b \<and>
         alpha e = toFixed2 (js_sub
                      (js_div (xirr_product (r_processedData res) (category e))
                              (xirr_weight (r_processedData res) (category e)))
                      (bench_return b))"
proof -
  from analysis_fields[OF assms] obtain st where
    st: "run_pass (map derive (working_rows h sim)) = Inr st"
    and pd: "r_processedData res = map derive (working_rows h sim)"
    and cd: "r_comparisonData res = comparisonData_of (categoryXIRR st)"
    by blast
  show ?thesis
    unfolding pd cd using entry_fields[OF st] by blast
qed

theorem alpha_rounds_difference_witness:
  "alpha (hd (r_comparisonData (projr (analysis [demo_item] False)))) = Fin 2"
  using alpha_rounds_difference [OF demo_returns]
  by (simp add: demo_comparison)

text \<open>
  The claim as written fails for a weighted XIRR of 13.375 against the benchmark 13.5:
  \<open>alpha\<close> is \<open>-0.13\<close>, the rounded difference, while the difference of the two rounded
  operands is \<open>13.38 - 13.5 = -0.12\<close>.
\<close>

theorem alpha_not_difference_of_rounded:
  "map_sum id r_comparisonData (analysis [tie_item] False) =
     Inr [\<lparr>category = ''Large Cap'', myXIRR = Fin (669 / 50), benchXIRR = Fin (27 / 2),
           benchName = ''Nifty 50'', alpha = Fin (- (13 / 100)), weight = Fin 8000\<rparr>]
   \<and> js_sub (toFixed2 (Fin (107 / 8))) (toFixed2 (Fin (27 / 2))) = Fin (- (3 / 25))"
  by (simp add: eval_simps tree_eval tie_item_def)

subsection \<open>Groups, merged funds and the category tree\<close>

lemma fold_option_start:
  assumes "\<And>x. g x None = g x (Some z)"
  shows "foldl (\<lambda>old x. Some (g x old)) None ys =
     (if ys = [] then None else foldl (\<lambda>old x. Some (g x old)) (Some z) ys)"
  by (cases ys) (simp_all add: assms)

lemma add_to_cat_fold_Some:
  "foldl (\<lambda>old x. Some (add_to_cat (subCat_of x) x old)) (Some m) ys =
     Some (dict_fold subCat_of add_to_group m ys)"
  by (induction ys arbitrary: m) (simp_all add: add_to_cat_def)

lemma add_to_cat_fold_None:
  "foldl (\<lambda>old x. Some (add_to_cat (subCat_of x) x old)) None ys =
     (if ys = [] then None else Some (dict_fold subCat_of add_to_group [] ys))"
proof -
  have "\<And>x. add_to_cat (subCat_of x) x None = add_to_cat (subCat_of x) x (Some [])"
    by (simp add: add_to_cat_def)
  from fold_option_start[of "\<lambda>x. add_to_cat (subCat_of x) x" "[]" ys, OF this]
  show ?thesis by (simp add: add_to_cat_fold_Some)
qed

lemma funds_upd_fold:
  "foldl (\<lambda>fs x. funds_upd x fs) fs zs =
     dict_fold SchemeName add_fund fs (filter (\<lambda>i. \<not> inherited (SchemeName i)) zs)"
  by (induction zs arbitrary: fs) (simp_all add: funds_upd_def)

lemma add_to_group_fold_Some:
  "foldl (\<lambda>old x. Some (add_to_group x old)) (Some g) zs =
     Some \<lparr>totalVal = foldl (\<lambda>acc x. js_add acc (CurrentValue x)) (totalVal g) zs,
           totalInv = foldl (\<lambda>acc x. js_add acc (InvestedValue x)) (totalInv g) zs,
           funds = foldl (\<lambda>fs x. funds_upd x fs) (funds g) zs\<rparr>"
  by (induction zs arbitrary: g) (simp_all add: add_to_group_def)

lemma add_to_group_fold_None:
  "foldl (\<lambda>old x. Some (add_to_group x old)) None zs =
     (if zs = [] then None else
      Some \<lparr>totalVal = reduce_sum CurrentValue zs, totalInv = reduce_sum InvestedValue zs,
            funds = dict_fold SchemeName add_fund []
                      (filter (\<lambda>i. \<not> inherited (SchemeName i)) zs)\<rparr>)"
proof -
  have "\<And>x. add_to_group x None = add_to_group x (Some empty_group)"
    by (simp add: add_to_group_def empty_group_def)
  from fold_option_start[of add_to_group empty_group zs, OF this]
  show ?thesis
    by (simp add: add_to_group_fold_Some empty_group_def reduce_sum_def funds_upd_fold)
qed

lemma add_fund_fold_Some:
  "foldl (\<lambda>old x. Some (add_fund x old)) (Some f) rs = Some (foldl merge_fund f rs)"
  by (induction rs arbitrary: f) (simp_all add: add_fund_def)

lemma add_fund_fold_None:
  "foldl (\<lambda>old x. Some (add_fund x old)) None rs =
     (case rs of [] \<Rightarrow> None | r # rest \<Rightarrow> Some (foldl merge_fund (new_fund r) rest))"
  by (cases rs) (simp_all add: add_fund_fold_Some, simp add: add_fund_def)

lemma filter_visible_cat:
  "filter (\<lambda>x. \<not> inherited (cat_of x) \<and> cat_of x = c) ws =
     (if inherited c then [] else filter (\<lambda>x. cat_of x = c) ws)"
proof (cases "inherited c")
  case True
  then show ?thesis by (auto simp: filter_empty_conv)
next
  case False
  have "filter (\<lambda>x. \<not> inherited (cat_of x) \<and> cat_of x = c) ws = filter (\<lambda>x. cat_of x = c) ws"
    using False by (intro filter_cong) auto
  then show ?thesis using False by simp
qed

lemma filter_visible_scheme:
  "filter (\<lambda>x. \<not> inherited (SchemeName x) \<and> SchemeName x = s) rows =
     (if inherited s then [] else filter (\<lambda>x. SchemeName x = s) rows)"
proof (cases "inherited s")
  case True
  then show ?thesis by (auto simp: filter_empty_conv)
next
  case False
  have "filter (\<lambda>x. \<not> inherited (SchemeName x) \<and> SchemeName x = s) rows =
        filter (\<lambda>x. SchemeName x = s) rows"
    using False by (intro filter_cong) auto
  then show ?thesis using False by simp
qed

lemma map_of_smartGroups:
  assumes "run_pass ws = Inr st"
  shows "map_of (smartGroups st) c =
     (if inherited c \<or> filter (\<lambda>i. cat_of i = c) ws = [] then None
      else Some (dict_fold subCat_of add_to_group [] (filter (\<lambda>i. cat_of i = c) ws)))"
  by (simp add: run_pass_state(4)[OF assms] map_of_dict_fold filter_visible_cat
      add_to_cat_fold_None)

lemma group_rows_empty: "filter (\<lambda>i. cat_of i = c) ws = [] \<Longrightarrow> group_rows ws c sc = []"
  by (simp add: group_rows_def)

lemma lookup_group_run_pass:
  assumes "run_pass ws = Inr st"
  shows "lookup_group (smartGroups st) c sc =
     (if inherited c \<or> group_rows ws c sc = [] then None else Some (group_of ws c sc))"
proof (cases "inherited c \<or> filter (\<lambda>i. cat_of i = c) ws = []")
  case True
  then show ?thesis
    by (auto simp: lookup_group_def map_of_smartGroups[OF assms] group_rows_empty)
next
  case False
  then show ?thesis
    by (simp add: lookup_group_def map_of_smartGroups[OF assms] map_of_dict_fold
        add_to_group_fold_None group_rows_def group_of_def)
qed

lemma lookup_fund_run_pass:
  assumes "run_pass ws = Inr st"
  shows "lookup_fund (smartGroups st) c sc s =
     (if inherited c \<or> inherited s then None
      else case scheme_rows ws c sc s of [] \<Rightarrow> None
           | r # rest \<Rightarrow> Some (foldl merge_fund (new_fund r) rest))"
proof (cases "inherited c \<or> group_rows ws c sc = []")
  case True
  then show ?thesis
    by (auto simp: lookup_fund_def lookup_group_run_pass[OF assms] scheme_rows_def)
next
  case False
  then show ?thesis
    by (simp add: lookup_fund_def lookup_group_run_pass[OF assms] group_of_def
        map_of_dict_fold filter_visible_scheme add_fund_fold_None scheme_rows_def)
qed

lemma merge_fund_sel [simp]:
  "InvestedValue (merge_fund e x) = js_add (InvestedValue e) (InvestedValue x)"
  "CurrentValue (merge_fund e x) = js_add (CurrentValue e) (CurrentValue x)"
  "Returns (merge_fund e x) = js_add (Returns e) (Returns x)"
  "Units (merge_fund e x) = js_add (Units e) (Units x)"
  "count (merge_fund e x) = count e + 1"
  "XIRR (merge_fund e x) = XIRR e"
  "SchemeName (merge_fund e x) = SchemeName e"
  "Category (merge_fund e x) = Category e"
  "SubCategory (merge_fund e x) = SubCategory e"
  "AMC (merge_fund e x) = AMC e"
  "u_currentNAV (merge_fund e x) = u_currentNAV e"
  "u_avgBuyNAV (merge_fund e x) = u_avgBuyNAV e"
  "u_absReturn (merge_fund e x) =
     absReturn_of (js_add (CurrentValue e) (CurrentValue x))
                  (js_add (InvestedValue e) (InvestedValue x))"
  by (simp_all add: merge_fund_def Let_def absReturn_of_def)

lemma new_fund_sel [simp]:
  "InvestedValue (new_fund r) = InvestedValue r" "CurrentValue (new_fund r) = CurrentValue r"
  "Returns (new_fund r) = Returns r" "Units (new_fund r) = Units r" "count (new_fund r) = 1"
  "XIRR (new_fund r) = XIRR r" "SchemeName (new_fund r) = SchemeName r"
  "Category (new_fund r) = Category r" "SubCategory (new_fund r) = SubCategory r"
  "AMC (new_fund r) = AMC r" "u_currentNAV (new_fund r) = u_currentNAV r"
  "u_avgBuyNAV (new_fund r) = u_avgBuyNAV r" "u_absReturn (new_fund r) = u_absReturn r"
  by (simp_all add: new_fund_def)

lemma fold_merge_sums:
  "InvestedValue (foldl merge_fund f rs) = foldl js_add (InvestedValue f) (map InvestedValue rs)"
  "CurrentValue (foldl merge_fund f rs) = foldl js_add (CurrentValue f) (map CurrentValue rs)"
  "Returns (foldl merge_fund f rs) = foldl js_add (Returns f) (map Returns rs)"
  "Units (foldl merge_fund f rs) = foldl js_add (Units f) (map Units rs)"
  "count (foldl merge_fund f rs) = count f + length rs"
  by (induction rs arbitrary: f) simp_all

lemma fold_merge_frame:
  "XIRR (foldl merge_fund f rs) = XIRR f"
  "SchemeName (foldl merge_fund f rs) = SchemeName f"
  "Category (foldl merge_fund f rs) = Category f"
  "SubCategory (foldl merge_fund f rs) = SubCategory f"
  "AMC (foldl merge_fund f rs) = AMC f"
  "u_currentNAV (foldl merge_fund f rs) = u_currentNAV f"
  "u_avgBuyNAV (foldl merge_fund f rs) = u_avgBuyNAV f"
  by (induction rs arbitrary: f) simp_all

lemma fold_merge_absReturn:
  "rs \<noteq> [] \<Longrightarrow>
   u_absReturn (foldl merge_fund f rs) =
     absReturn_of (CurrentValue (foldl merge_fund f rs)) (InvestedValue (foldl merge_fund f rs))"
  by (induction rs rule: rev_induct) simp_all

lemma merged_from_fold: "merged_from (foldl merge_fund (new_fund r) rest) r rest"
proof -
  let ?f = "foldl merge_fund (new_fund r) rest"
  have ab: "u_absReturn ?f =
         (if rest = [] then u_absReturn r else absReturn_of (CurrentValue ?f) (InvestedValue ?f))"
    using fold_merge_absReturn[of rest "new_fund r"] by simp
  have rk: "rank_key ?f = js_or (XIRR r) (u_absReturn ?f)"
    by (simp add: rank_key_def fold_merge_frame)
  show ?thesis
    unfolding merged_from_def
    using ab rk by (simp add: fold_merge_sums fold_merge_frame)
qed

lemma js_or_cases: "js_or x y = (if x \<noteq> Fin 0 \<and> x \<noteq> NaN then x else y)"
  by (simp add: js_or_def truthy_def)

lemma rank_key_of_rows:
  "rank_key (foldl merge_fund (new_fund (derive i)) (map derive rest)) = scheme_key i rest"
proof -
  let ?f = "foldl merge_fund (new_fund (derive i)) (map derive rest)"
  have m: "merged_from ?f (derive i) (map derive rest)" by (rule merged_from_fold)
  have cv: "CurrentValue ?f = foldl js_add (CurrentValue i) (map CurrentValue rest)"
    by (simp add: fold_merge_sums comp_def)
  have iv: "InvestedValue ?f = foldl js_add (InvestedValue i) (map InvestedValue rest)"
    by (simp add: fold_merge_sums comp_def)
  have ab: "u_absReturn ?f =
      (if rest = []
       then absReturn_of (js_or (CurrentValue i) (Fin 0)) (js_or (InvestedValue i) (Fin 0))
       else absReturn_of (foldl js_add (CurrentValue i) (map CurrentValue rest))
                         (foldl js_add (InvestedValue i) (map InvestedValue rest)))"
  proof (cases "rest = []")
    case True
    then show ?thesis by (simp add: derive_absReturn)
  next
    case False
    then have "map derive rest \<noteq> []" by simp
    from fold_merge_absReturn[OF this] show ?thesis using False by (simp only: cv iv) simp
  qed
  have "rank_key ?f = js_or (XIRR i) (u_absReturn ?f)"
    by (simp add: rank_key_def fold_merge_frame)
  then show ?thesis
    by (simp add: ab scheme_key_def js_or_cases)
qed

lemma group_rows_derive: "group_rows (map derive w) c sc = map derive (group_rows w c sc)"
  by (simp add: group_rows_def filter_map comp_def)

lemma scheme_rows_derive: "scheme_rows (map derive w) c sc s = map derive (scheme_rows w c sc s)"
  by (simp add: scheme_rows_def group_rows_derive filter_map comp_def)

lemma plan_as_filter:
  "consolidationPlan_of tree =
     map (\<lambda>g. plan_entry (snd g)) (filter (\<lambda>g. 2 < fundCount (snd g)) (tree_groups tree))"
  by (induction tree) (simp_all add: consolidationPlan_of_def tree_groups_def filter_map comp_def)

lemma cat_node_sel [simp]:
  "cat_name (cat_node e) = fst e"
  "set (subCategories (cat_node e)) = sub_node ` set (snd e)"
  by (simp_all add: cat_node_def sub_node_def Let_def)

lemma sub_node_sel [simp]:
  "sub_name (sub_node e) = fst e"
  "fundCount (sub_node e) = length (funds (snd e))"
  "set (sub_funds (sub_node e)) = snd ` set (funds (snd e))"
  "sub_totalVal (sub_node e) = totalVal (snd e)"
  by (simp_all add: sub_node_def Let_def)

lemma set_tree_groups:
  "set (tree_groups (categoryTree_of sg)) =
     {(c, sub_node e) | c m e. (c, m) \<in> set sg \<and> e \<in> set m}"
  by (auto simp: tree_groups_def categoryTree_of_def) force+

lemma distinct_tagged_concat:
  "distinct (map tag xs) \<Longrightarrow> (\<forall>x\<in>set xs. distinct (map k (g x))) \<Longrightarrow>
   distinct (concat (map (\<lambda>x. map (\<lambda>y. (tag x, k y)) (g x)) xs))"
proof (induction xs)
  case Nil
  then show ?case by simp
next
  case (Cons x xs)
  have d1: "distinct (map (\<lambda>y. (tag x, k y)) (g x))"
    using Cons.prems(2) by (simp add: distinct_map inj_on_def)
  have d2: "distinct (concat (map (\<lambda>x. map (\<lambda>y. (tag x, k y)) (g x)) xs))"
    using Cons by simp
  have d3: "set (map (\<lambda>y. (tag x, k y)) (g x)) \<inter>
            set (concat (map (\<lambda>x. map (\<lambda>y. (tag x, k y)) (g x)) xs)) = {}"
    using Cons.prems(1) by auto
  show ?case using d1 d2 d3 by simp
qed

lemma smartGroups_distinct:
  assumes "run_pass ws = Inr st"
  shows "distinct (map fst (smartGroups st))"
  unfolding run_pass_state(4)[OF assms]
  by (rule distinct_dict_fold) simp

lemma smartGroups_member:
  assumes st: "run_pass ws = Inr st" and "(c, m) \<in> set (smartGroups st)"
  shows "m = dict_fold subCat_of add_to_group [] (filter (\<lambda>i. cat_of i = c) ws)"
proof -
  from assms(2) have "map_of (smartGroups st) c = Some m"
    using smartGroups_distinct[OF st] by simp
  then show ?thesis
    by (simp add: map_of_smartGroups[OF st] split: if_splits)
qed

lemma smartGroups_inner_distinct:
  assumes st: "run_pass ws = Inr st" and "(c, m) \<in> set (smartGroups st)"
  shows "distinct (map fst m)"
  unfolding smartGroups_member[OF assms]
  by (rule distinct_dict_fold) simp

lemma lookup_group_iff:
  assumes st: "run_pass ws = Inr st"
  shows "(\<exists>m. (c, m) \<in> set (smartGroups st) \<and> (sc, g) \<in> set m) =
     (lookup_group (smartGroups st) c sc = Some g)"
proof
  assume "\<exists>m. (c, m) \<in> set (smartGroups st) \<and> (sc, g) \<in> set m"
  then obtain m where m: "(c, m) \<in> set (smartGroups st)" "(sc, g) \<in> set m"
    by blast
  have 1: "map_of (smartGroups st) c = Some m"
    using m(1) smartGroups_distinct[OF st] by simp
  have 2: "map_of m sc = Some g"
    using m(2) smartGroups_inner_distinct[OF st m(1)] by simp
  show "lookup_group (smartGroups st) c sc = Some g"
    by (simp add: lookup_group_def 1 2)
next
  assume a: "lookup_group (smartGroups st) c sc = Some g"
  then obtain m where 1: "map_of (smartGroups st) c = Some m" and 2: "map_of m sc = Some g"
    by (auto simp: lookup_group_def split: option.splits)
  from 1 have "(c, m) \<in> set (smartGroups st)" by (rule map_of_SomeD)
  moreover from 2 have "(sc, g) \<in> set m" by (rule map_of_SomeD)
  ultimately show "\<exists>m. (c, m) \<in> set (smartGroups st) \<and> (sc, g) \<in> set m"
    by blast
qed

lemma lookup_group_of:
  assumes st: "run_pass ws = Inr st"
  shows "(lookup_group (smartGroups st) c sc = Some g) =
     (\<not> inherited c \<and> group_rows ws c sc \<noteq> [] \<and> g = group_of ws c sc)"
  by (auto simp: lookup_group_run_pass[OF st])

lemma tree_groups_iff:
  assumes st: "run_pass ws = Inr st"
  shows "((c, sub) \<in> set (tree_groups (categoryTree_of (smartGroups st)))) =
     (\<not> inherited c \<and> (\<exists>sc. group_rows ws c sc \<noteq> [] \<and> sub = sub_node (sc, group_of ws c sc)))"
proof -
  have "((c, sub) \<in> set (tree_groups (categoryTree_of (smartGroups st)))) =
      (\<exists>sc g. (\<exists>m. (c, m) \<in> set (smartGroups st) \<and> (sc, g) \<in> set m) \<and>
              sub = sub_node (sc, g))"
    unfolding set_tree_groups by auto
  also have "\<dots> = (\<exists>sc g. (\<not> inherited c \<and> group_rows ws c sc \<noteq> [] \<and> g = group_of ws c sc) \<and>
              sub = sub_node (sc, g))"
    by (simp only: lookup_group_iff[OF st] lookup_group_of[OF st])
  finally show ?thesis by auto
qed

lemma group_rows_nonempty:
  "(group_rows ws c sc \<noteq> []) = ((c, sc) \<in> (\<lambda>i. (cat_of i, subCat_of i)) ` set ws)"
  by (auto simp: group_rows_def filter_empty_conv)

lemma tree_names_set:
  assumes st: "run_pass ws = Inr st"
  shows "set (map (\<lambda>g. (fst g, sub_name (snd g)))
          (tree_groups (categoryTree_of (smartGroups st)))) =
     (\<lambda>i. (cat_of i, subCat_of i)) ` set (filter (\<lambda>i. \<not> inherited (cat_of i)) ws)"
proof (rule set_eqI)
  fix p :: "string \<times> string"
  obtain c sc where p: "p = (c, sc)" by (cases p)
  have "(p \<in> set (map (\<lambda>g. (fst g, sub_name (snd g)))
          (tree_groups (categoryTree_of (smartGroups st))))) =
        (\<exists>sub. (c, sub) \<in> set (tree_groups (categoryTree_of (smartGroups st)))
              \<and> sub_name sub = sc)"
    unfolding p by force
  also have "\<dots> = (\<not> inherited c \<and> group_rows ws c sc \<noteq> [])"
    unfolding tree_groups_iff[OF st] by auto
  also have "\<dots> = (p \<in> (\<lambda>i. (cat_of i, subCat_of i)) ` set (filter (\<lambda>i. \<not> inherited (cat_of i)) ws))"
    unfolding group_rows_nonempty p by auto
  finally show "(p \<in> set (map (\<lambda>g. (fst g, sub_name (snd g)))
          (tree_groups (categoryTree_of (smartGroups st))))) =
      (p \<in> (\<lambda>i. (cat_of i, subCat_of i)) ` set (filter (\<lambda>i. \<not> inherited (cat_of i)) ws))" .
qed

lemma tree_names_distinct:
  assumes st: "run_pass ws = Inr st"
  shows "distinct (map (\<lambda>g. (fst g, sub_name (snd g)))
      (tree_groups (categoryTree_of (smartGroups st))))"
proof -
  let ?sg = "smartGroups st"
  let ?tree = "categoryTree_of ?sg"
  have n: "map (\<lambda>g. (fst g, sub_name (snd g))) (tree_groups ?tree) =
      concat (map (\<lambda>cat. map (\<lambda>sub. (cat_name cat, sub_name sub)) (subCategories cat)) ?tree)"
    by (simp add: tree_groups_def map_concat comp_def)
  have "distinct (map (\<lambda>e. cat_name (cat_node e)) (own_entries ?sg))"
    using smartGroups_distinct[OF st]
    by (simp add: distinct_map_own_entries[of fst ?sg])
  then have d1: "distinct (map cat_name ?tree)"
    unfolding categoryTree_of_def distinct_map_js_sort by (simp add: comp_def)
  have d2: "\<forall>cat\<in>set ?tree. distinct (map sub_name (subCategories cat))"
  proof
    fix cat assume "cat \<in> set ?tree"
    then obtain e where e: "e \<in> set ?sg" "cat = cat_node e"
      by (auto simp: categoryTree_of_def)
    have "distinct (map fst (snd e))"
      using smartGroups_inner_distinct[OF st, of "fst e" "snd e"] e(1) by simp
    then have "distinct (map (\<lambda>x. sub_name (sub_node x)) (own_entries (snd e)))"
      by (simp add: distinct_map_own_entries[of fst "snd e"])
    then show "distinct (map sub_name (subCategories cat))"
      unfolding e(2) cat_node_def Let_def
      by (simp add: distinct_map_js_sort comp_def)
  qed
  show ?thesis unfolding n using d1 d2 by (rule distinct_tagged_concat)
qed

lemma funds_distinct: "distinct (map fst (funds (group_of ws c sc)))"
  by (simp add: group_of_def distinct_dict_fold)

lemma fundCount_card:
  "fundCount (sub_node (sc, group_of ws c sc)) =
     card (SchemeName ` set (filter (\<lambda>i. \<not> inherited (SchemeName i)) (group_rows ws c sc)))"
proof -
  have "length (funds (group_of ws c sc)) = length (map fst (funds (group_of ws c sc)))"
    by simp
  also have "\<dots> = card (set (map fst (funds (group_of ws c sc))))"
    using funds_distinct[of ws c sc] by (simp only: distinct_card)
  also have "\<dots> = card (SchemeName ` set (filter (\<lambda>i. \<not> inherited (SchemeName i))
                                              (group_rows ws c sc)))"
    by (simp only: group_of_def group.simps keys_dict_fold) simp
  finally show ?thesis by simp
qed

lemma length_sub_funds: "length (sub_funds (sub_node e)) = fundCount (sub_node e)"
  by (simp add: sub_node_def Let_def)

text \<open>Where the funds of a tree node come from.\<close>

lemma group_fund_origin:
  assumes "(s, f) \<in> set (funds (group_of ws c sc))"
  shows "\<not> inherited s \<and> (\<exists>r rest. scheme_rows ws c sc s = r # rest
           \<and> f = foldl merge_fund (new_fund r) rest) \<and> SchemeName f = s"
proof -
  let ?rows = "filter (\<lambda>i. \<not> inherited (SchemeName i)) (group_rows ws c sc)"
  from assms have "map_of (funds (group_of ws c sc)) s = Some f"
    using funds_distinct[of ws c sc] by simp
  then have m: "(case filter (\<lambda>x. SchemeName x = s) ?rows of [] \<Rightarrow> None
                 | r # rest \<Rightarrow> Some (foldl merge_fund (new_fund r) rest)) = Some f"
    by (simp add: group_of_def map_of_dict_fold add_fund_fold_None)
  then have ni: "\<not> inherited s"
    by (auto simp: filter_visible_scheme split: if_splits)
  then have e: "filter (\<lambda>x. SchemeName x = s) ?rows = scheme_rows ws c sc s"
    by (simp add: filter_visible_scheme scheme_rows_def)
  from m obtain r rest where rr: "scheme_rows ws c sc s = r # rest"
      "f = foldl merge_fund (new_fund r) rest"
    unfolding e by (auto split: list.splits)
  have "r \<in> set (scheme_rows ws c sc s)" using rr(1) by simp
  then have "SchemeName r = s" by (simp add: scheme_rows_def)
  then have "SchemeName f = s" by (simp add: rr(2) fold_merge_frame)
  with ni rr show ?thesis by blast
qed

lemma tree_fund_origin:
  assumes st: "run_pass (map derive w) = Inr st"
    and g: "(c, sub) \<in> set (tree_groups (categoryTree_of (smartGroups st)))"
    and f: "f \<in> set (sub_funds sub)"
  shows "\<not> inherited c \<and> \<not> inherited (SchemeName f)
     \<and> (\<exists>i rest. scheme_rows w c (sub_name sub) (SchemeName f) = i # rest
           \<and> f = foldl merge_fund (new_fund (derive i)) (map derive rest))"
proof -
  let ?ws = "map derive w"
  from g obtain sc where ni: "\<not> inherited c" and sc: "group_rows ?ws c sc \<noteq> []"
      "sub = sub_node (sc, group_of ?ws c sc)"
    unfolding tree_groups_iff[OF st] by blast
  have n: "sub_name sub = sc" by (simp add: sc(2))
  from f have "f \<in> snd ` set (funds (group_of ?ws c sc))" by (simp add: sc(2))
  then obtain s where s: "(s, f) \<in> set (funds (group_of ?ws c sc))" by auto
  from group_fund_origin[OF s] obtain r rest where
    o: "\<not> inherited s" "scheme_rows ?ws c sc s = r # rest"
       "f = foldl merge_fund (new_fund r) rest" "SchemeName f = s"
    by blast
  from o(2) have "map derive (scheme_rows w c sc s) = r # rest"
    by (simp add: scheme_rows_derive)
  then obtain i rest0 where i: "scheme_rows w c sc s = i # rest0" "r = derive i"
      "rest = map derive rest0"
    by (cases "scheme_rows w c sc s") auto
  show ?thesis
    using ni o(1) o(3) o(4) i n by auto
qed

lemma sub_funds_names_distinct:
  "distinct (map SchemeName (sub_funds (sub_node (sc, group_of ws c sc))))"
proof -
  let ?fs = "funds (group_of ws c sc)"
  have e: "map (\<lambda>e. SchemeName (snd e)) ?fs = map fst ?fs"
    by (rule map_cong) (auto dest: group_fund_origin)
  have "distinct (map (\<lambda>e. SchemeName (snd e)) ?fs)"
    unfolding e by (rule funds_distinct)
  then have "distinct (map (\<lambda>e. SchemeName (snd e)) (own_entries ?fs))"
    by (simp only: distinct_map_own_entries)
  then show ?thesis
    unfolding sub_node_def Let_def
    by (simp add: distinct_map_js_sort comp_def)
qed

subsection \<open>Order of the ranking\<close>

lemma js_gt_sub: "js_gt (js_sub a b) (Fin 0) = js_lt b a"
  by (cases a; cases b) (auto simp: js_gt_def js_sub_def)

lemma js_lt_asym: "js_lt a b \<Longrightarrow> \<not> js_lt b a"
  by (cases a; cases b) auto

lemma js_not_lt_trans:
  "a \<noteq> NaN \<Longrightarrow> b \<noteq> NaN \<Longrightarrow> c \<noteq> NaN \<Longrightarrow> \<not> js_lt a b \<Longrightarrow> \<not> js_lt b c \<Longrightarrow> \<not> js_lt a c"
  by (cases a; cases b; cases c) auto

lemma set_sort_insert [simp]: "set (sort_insert cmp x ys) = insert x (set ys)"
  by (induction ys) auto

lemma sorted_sort_insert:
  assumes "\<forall>z\<in>set (x # ys). k z \<noteq> NaN"
    and "sorted_wrt (\<lambda>a b. \<not> js_lt (k a) (k b)) ys"
  shows "sorted_wrt (\<lambda>a b. \<not> js_lt (k a) (k b)) (sort_insert (\<lambda>a b. js_sub (k b) (k a)) x ys)"
  using assms
proof (induction ys)
  case Nil
  then show ?case by simp
next
  case (Cons y ys)
  show ?case
  proof (cases "js_lt (k x) (k y)")
    case True
    have ih: "sorted_wrt (\<lambda>a b. \<not> js_lt (k a) (k b)) (sort_insert (\<lambda>a b. js_sub (k b) (k a)) x ys)"
      using Cons by simp
    have "\<not> js_lt (k y) (k x)" using True by (rule js_lt_asym)
    then show ?thesis using True ih Cons.prems(2) by (simp add: js_gt_sub)
  next
    case False
    have "\<forall>z\<in>set ys. \<not> js_lt (k x) (k z)"
    proof
      fix z assume z: "z \<in> set ys"
      then have "\<not> js_lt (k y) (k z)" using Cons.prems(2) by simp
      moreover have "k x \<noteq> NaN" "k y \<noteq> NaN" "k z \<noteq> NaN" using Cons.prems(1) z by simp_all
      ultimately show "\<not> js_lt (k x) (k z)" using False js_not_lt_trans by blast
    qed
    then show ?thesis using False Cons.prems(2) by (simp add: js_gt_sub)
  qed
qed

lemma sorted_js_sort:
  "\<forall>z\<in>set xs. k z \<noteq> NaN \<Longrightarrow>
   sorted_wrt (\<lambda>a b. \<not> js_lt (k a) (k b)) (js_sort (\<lambda>a b. js_sub (k b) (k a)) xs)"
proof (induction xs)
  case Nil
  then show ?case by (simp add: js_sort_def)
next
  case (Cons x xs)
  have s: "sorted_wrt (\<lambda>a b. \<not> js_lt (k a) (k b)) (js_sort (\<lambda>a b. js_sub (k b) (k a)) xs)"
    using Cons by simp
  have n: "\<forall>z\<in>set (x # js_sort (\<lambda>a b. js_sub (k b) (k a)) xs). k z \<noteq> NaN"
    using Cons.prems by simp
  have "js_sort (\<lambda>a b. js_sub (k b) (k a)) (x # xs) =
        sort_insert (\<lambda>a b. js_sub (k b) (k a)) x (js_sort (\<lambda>a b. js_sub (k b) (k a)) xs)"
    by (simp add: js_sort_def)
  then show ?case using sorted_sort_insert[OF n s] by simp
qed

lemma plan_entry_sel:
  "plan_category (plan_entry sub) = sub_name sub"
  "potentialMoveValue (plan_entry sub) = reduce_sum CurrentValue (others (plan_entry sub))"
  by (simp_all add: plan_entry_def Let_def)

lemma plan_entry_ranked:
  assumes "sub_funds sub \<noteq> []"
  shows "\<exists>w. winner (plan_entry sub) = Some w
           \<and> mset (w # others (plan_entry sub)) = mset (sub_funds sub)
           \<and> length (others (plan_entry sub)) = length (sub_funds sub) - 1
           \<and> ((\<forall>f\<in>set (sub_funds sub). rank_key f \<noteq> NaN) \<longrightarrow>
                sorted_wrt (\<lambda>a b. \<not> js_lt (rank_key a) (rank_key b))
                  (w # others (plan_entry sub)))"
proof -
  let ?s = "js_sort (\<lambda>a b. js_sub (rank_key b) (rank_key a)) (sub_funds sub)"
  have "?s \<noteq> []" using assms length_js_sort[of _ "sub_funds sub"] by (metis length_0_conv)
  then obtain w r where wr: "?s = w # r" by (cases ?s) auto
  have 1: "winner (plan_entry sub) = Some w" by (simp add: plan_entry_def Let_def wr)
  have 2: "others (plan_entry sub) = r" by (simp add: plan_entry_def Let_def wr)
  have 3: "mset (w # r) = mset (sub_funds sub)" using mset_js_sort[of _ "sub_funds sub"] wr by metis
  have 4: "length r = length (sub_funds sub) - 1"
    using length_js_sort[of "\<lambda>a b. js_sub (rank_key b) (rank_key a)" "sub_funds sub"] wr by simp
  have 5: "(\<forall>f\<in>set (sub_funds sub). rank_key f \<noteq> NaN) \<longrightarrow>
      sorted_wrt (\<lambda>a b. \<not> js_lt (rank_key a) (rank_key b)) (w # r)"
    using sorted_js_sort[of "sub_funds sub" rank_key] wr by simp
  show ?thesis using 1 2 3 4 5 by simp
qed

subsection \<open>Finite rows give finite ranking keys\<close>

lemma is_fin_iff: "is_fin x = (\<exists>v. x = Fin v)"
  by (cases x) (simp_all add: is_fin_def)

lemma is_fin_add: "is_fin a \<Longrightarrow> is_fin b \<Longrightarrow> is_fin (js_add a b)"
  by (auto simp: is_fin_iff)

lemma is_fin_or_zero: "is_fin a \<Longrightarrow> is_fin (js_or a (Fin 0))"
  by (auto simp: is_fin_iff js_or_def)

lemma is_fin_absReturn_of: "is_fin a \<Longrightarrow> is_fin b \<Longrightarrow> is_fin (absReturn_of a b)"
  by (auto simp: is_fin_iff absReturn_of_def js_gt_def)

lemma is_fin_foldl_add:
  "is_fin a \<Longrightarrow> \<forall>x\<in>set xs. is_fin x \<Longrightarrow> is_fin (foldl js_add a xs)"
  by (induction xs arbitrary: a) (simp_all add: is_fin_add)

lemma is_fin_not_NaN: "is_fin x \<Longrightarrow> x \<noteq> NaN"
  by (auto simp: is_fin_iff)

lemma scheme_key_fin:
  assumes r: "finite_item i" and rest: "\<forall>x\<in>set rest. finite_item x"
  shows "is_fin (scheme_key i rest)"
proof -
  have fx: "is_fin (XIRR i)" using r by (simp add: finite_item_def)
  have cv: "is_fin (foldl js_add (CurrentValue i) (map CurrentValue rest))"
    using r rest by (intro is_fin_foldl_add) (auto simp: finite_item_def)
  have iv: "is_fin (foldl js_add (InvestedValue i) (map InvestedValue rest))"
    using r rest by (intro is_fin_foldl_add) (auto simp: finite_item_def)
  have one: "is_fin (absReturn_of (js_or (CurrentValue i) (Fin 0))
                       (js_or (InvestedValue i) (Fin 0)))"
    using r by (simp add: finite_item_def is_fin_absReturn_of is_fin_or_zero)
  show ?thesis
    using fx cv iv one by (simp add: scheme_key_def is_fin_absReturn_of)
qed

subsection \<open>Consolidation plan\<close>

lemma plain_rows_visible:
  assumes "\<forall>i\<in>set w. plain_labels i"
  shows "filter (\<lambda>i. \<not> inherited (cat_of i)) (map derive w) = map derive w"
    and "filter (\<lambda>i. \<not> inherited (SchemeName i)) (group_rows (map derive w) c sc) =
           group_rows (map derive w) c sc"
proof -
  show "filter (\<lambda>i. \<not> inherited (cat_of i)) (map derive w) = map derive w"
    using assms by (auto simp: filter_id_conv plain_labels_def)
  have "\<forall>x\<in>set (group_rows (map derive w) c sc). \<not> inherited (SchemeName x)"
    using assms by (auto simp: plain_labels_def group_rows_def)
  then show "filter (\<lambda>i. \<not> inherited (SchemeName i)) (group_rows (map derive w) c sc) =
           group_rows (map derive w) c sc"
    by (rule filter_True)
qed

lemma plan_group_facts:
  assumes st: "run_pass (map derive w) = Inr st"
    and pl: "\<forall>i\<in>set w. plain_labels i"
    and g: "g \<in> set (tree_groups (categoryTree_of (smartGroups st)))"
  shows "fundCount (snd g) = card (SchemeName ` set (group_rows w (fst g) (sub_name (snd g))))
       \<and> length (sub_funds (snd g)) = fundCount (snd g)
       \<and> distinct (map SchemeName (sub_funds (snd g)))
       \<and> (\<forall>f\<in>set (sub_funds (snd g)).
            \<exists>i rest. scheme_rows w (fst g) (sub_name (snd g)) (SchemeName f) = i # rest
               \<and> rank_key f = scheme_key i rest
               \<and> CurrentValue f = foldl js_add (CurrentValue i) (map CurrentValue rest))
       \<and> plan_category (plan_entry (snd g)) = sub_name (snd g)
       \<and> potentialMoveValue (plan_entry (snd g)) =
            reduce_sum CurrentValue (others (plan_entry (snd g)))
       \<and> (2 < fundCount (snd g) \<longrightarrow>
            (\<exists>v. winner (plan_entry (snd g)) = Some v
               \<and> mset (v # others (plan_entry (snd g))) = mset (sub_funds (snd g))
               \<and> length (others (plan_entry (snd g))) = fundCount (snd g) - 1
               \<and> ((\<forall>f\<in>set (sub_funds (snd g)). rank_key f \<noteq> NaN) \<longrightarrow>
                    sorted_wrt (\<lambda>a b. \<not> js_lt (rank_key a) (rank_key b))
                      (v # others (plan_entry (snd g))))))"
proof -
  let ?ws = "map derive w"
  obtain c sub where gp: "g = (c, sub)" by (cases g)
  have gm: "(c, sub) \<in> set (tree_groups (categoryTree_of (smartGroups st)))"
    using g by (simp add: gp)
  from gm obtain sc where sc: "group_rows ?ws c sc \<noteq> []" "sub = sub_node (sc, group_of ?ws c sc)"
    unfolding tree_groups_iff[OF st] by blast
  have n: "sub_name sub = sc" by (simp add: sc(2))
  have "fundCount sub = card (SchemeName ` set (group_rows ?ws c sc))"
    unfolding sc(2) by (simp only: fundCount_card plain_rows_visible(2)[OF pl])
  also have "\<dots> = card (SchemeName ` set (group_rows w c sc))"
    by (simp add: group_rows_derive image_image)
  finally have 1: "fundCount sub = card (SchemeName ` set (group_rows w c (sub_name sub)))"
    by (simp add: n)
  have 2: "length (sub_funds sub) = fundCount sub"
    unfolding sc(2) by (rule length_sub_funds)
  have 3: "distinct (map SchemeName (sub_funds sub))"
    unfolding sc(2) by (rule sub_funds_names_distinct)
  have 4: "\<forall>f\<in>set (sub_funds sub).
            \<exists>i rest. scheme_rows w c (sub_name sub) (SchemeName f) = i # rest
               \<and> rank_key f = scheme_key i rest
               \<and> CurrentValue f = foldl js_add (CurrentValue i) (map CurrentValue rest)"
  proof
    fix f assume f: "f \<in> set (sub_funds sub)"
    from tree_fund_origin[OF st gm f] obtain i rest where
      o: "scheme_rows w c (sub_name sub) (SchemeName f) = i # rest"
         "f = foldl merge_fund (new_fund (derive i)) (map derive rest)"
      by blast
    have k: "rank_key f = scheme_key i rest"
      unfolding o(2) by (rule rank_key_of_rows)
    have v: "CurrentValue f = foldl js_add (CurrentValue i) (map CurrentValue rest)"
      unfolding o(2) by (simp add: fold_merge_sums comp_def)
    show "\<exists>i rest. scheme_rows w c (sub_name sub) (SchemeName f) = i # rest
               \<and> rank_key f = scheme_key i rest
               \<and> CurrentValue f = foldl js_add (CurrentValue i) (map CurrentValue rest)"
      using o(1) k v by blast
  qed
  have 5: "2 < fundCount sub \<longrightarrow>
            (\<exists>v. winner (plan_entry sub) = Some v
               \<and> mset (v # others (plan_entry sub)) = mset (sub_funds sub)
               \<and> length (others (plan_entry sub)) = fundCount sub - 1
               \<and> ((\<forall>f\<in>set (sub_funds sub). rank_key f \<noteq> NaN) \<longrightarrow>
                    sorted_wrt (\<lambda>a b. \<not> js_lt (rank_key a) (rank_key b))
                      (v # others (plan_entry sub))))"
  proof
    assume "2 < fundCount sub"
    then have "sub_funds sub \<noteq> []" using 2 by auto
    from plan_entry_ranked[OF this] show "\<exists>v. winner (plan_entry sub) = Some v
               \<and> mset (v # others (plan_entry sub)) = mset (sub_funds sub)
               \<and> length (others (plan_entry sub)) = fundCount sub - 1
               \<and> ((\<forall>f\<in>set (sub_funds sub). rank_key f \<noteq> NaN) \<longrightarrow>
                    sorted_wrt (\<lambda>a b. \<not> js_lt (rank_key a) (rank_key b))
                      (v # others (plan_entry sub)))"
      unfolding 2 .
  qed
  show ?thesis
    unfolding gp fst_conv snd_conv
    by (intro conjI) (rule 1, rule 2, rule 3, rule 4, rule plan_entry_sel(1),
        rule plan_entry_sel(2), rule 5)
qed

lemma scheme_rows_subset: "set (scheme_rows w c sc s) \<subseteq> set w"
  by (auto simp: scheme_rows_def group_rows_def)

lemma tree_fund_rank_key:
  assumes st: "run_pass (map derive w) = Inr st"
    and fin: "\<forall>i\<in>set w. finite_item i"
    and g: "g \<in> set (tree_groups (categoryTree_of (smartGroups st)))"
    and f: "f \<in> set (sub_funds (snd g))"
  shows "rank_key f \<noteq> NaN"
proof -
  obtain c sub where gp: "g = (c, sub)" by (cases g)
  have gm: "(c, sub) \<in> set (tree_groups (categoryTree_of (smartGroups st)))"
    using g by (simp add: gp)
  have fm: "f \<in> set (sub_funds sub)" using f by (simp add: gp)
  from tree_fund_origin[OF st gm fm] obtain i rest where
    o: "scheme_rows w c (sub_name sub) (SchemeName f) = i # rest"
       "f = foldl merge_fund (new_fund (derive i)) (map derive rest)"
    by blast
  have "set (i # rest) \<subseteq> set w"
    using scheme_rows_subset[of w c "sub_name sub" "SchemeName f"] by (simp only: o(1))
  then have "finite_item i" "\<forall>x\<in>set rest. finite_item x"
    using fin by auto
  then have "is_fin (scheme_key i rest)" by (rule scheme_key_fin)
  then have "is_fin (rank_key f)"
    unfolding o(2) by (simp only: rank_key_of_rows)
  then show ?thesis by (rule is_fin_not_NaN)
qed


lemma abc_plain: "\<forall>i\<in>set [fund_a, fund_b, fund_c]. plain_labels i"
  by (simp add: plain_labels_def pass_eval fund_a_def fund_b_def fund_c_def)



subsection \<open>Merging rows of one scheme\<close>


lemma fund_a_facts:
  "cat_of fund_a = ''Equity''" "subCat_of fund_a = ''Large Cap''"
  "SchemeName fund_a = ''A''" "CurrentValue fund_a = Fin 10000"
  "InvestedValue fund_a = Fin 8000" "Returns fund_a = Fin 2000" "Units fund_a = Fin 100"
  "XIRR fund_a = Fin 10"
  by (simp_all add: cat_of_def subCat_of_def str_or_def fund_a_def)

lemma fund_a2_facts:
  "cat_of fund_a2 = ''Equity''" "subCat_of fund_a2 = ''Large Cap''"
  "SchemeName fund_a2 = ''A''" "CurrentValue fund_a2 = Fin 5000"
  "InvestedValue fund_a2 = Fin 2000" "Returns fund_a2 = Fin 3000" "Units fund_a2 = Fin 50"
  "XIRR fund_a2 = Fin 40"
  by (simp_all add: cat_of_def subCat_of_def str_or_def fund_a2_def)

lemma two_rows_return:
  "analysis [fund_a, fund_a2] False = Inr (projr (analysis [fund_a, fund_a2] False))"
proof -
  have "\<forall>i\<in>set [fund_a, fund_a2]. plain_labels i"
    by (simp add: plain_labels_def fund_a_facts fund_a2_facts inherited_def proto_names_def)
  from plain_rows_return[OF this] obtain res where
    "analysis [fund_a, fund_a2] False = Inr res" by blast
  then show ?thesis by simp
qed

lemma two_rows_processed:
  "r_processedData (projr (analysis [fund_a, fund_a2] False)) = map derive [fund_a, fund_a2]"
  using analysis_fields[OF two_rows_return] by (auto simp: working_rows_def kept_eta)

lemma two_rows:
  "scheme_rows (map derive [fund_a, fund_a2]) ''Equity'' ''Large Cap'' ''A''
     = derive fund_a # [derive fund_a2]"
  by (simp add: scheme_rows_def group_rows_def fund_a_facts fund_a2_facts)


subsection \<open>Labels that are names inherited from \<open>Object.prototype\<close>\<close>

text \<open>
  Rows in a category named like an inherited property take part in the totals, in the
  category chart (with a text as value) and in the benchmark comparison, but their groups
  are not in the category tree and so not in the plan. A scheme named like an inherited
  property is counted in its group's totals, but is no fund of the group. A sub-category
  named like an inherited property makes the loop throw, and the category \<open>__proto__\<close>
  makes it write to \<open>Object.prototype\<close>.
\<close>

lemma inherited_category_has_no_node:
  "map_sum id
     (\<lambda>r. (r_categoryTree r, r_consolidationPlan r, map category (r_comparisonData r),
           r_categoryData r, r_totalCurr r))
     (analysis [hid_a, hid_b, hid_c] False) =
   Inr ([], [], [''Large Cap''], [(''constructor'', Text)], Fin 30000)"
  by (simp add: eval_simps tree_eval tree_groups_def hid_a_def hid_b_def hid_c_def fund_a_def
      fund_b_def fund_c_def js_sub_def)

lemma inherited_scheme_has_no_fund:
  "map_sum id
     (\<lambda>r. (map (\<lambda>g. (fst g, sub_name (snd g), sub_totalVal (snd g), fundCount (snd g),
                       map SchemeName (sub_funds (snd g))))
              (tree_groups (r_categoryTree r)),
           r_consolidationPlan r))
     (analysis [fund_a, fund_b, fund_p] False) =
   Inr ([(''Equity'', ''Large Cap'', Fin 30000, 2, [''A'', ''B''])], [])"
  by (simp add: eval_simps tree_eval tree_groups_def fund_p_def fund_a_def fund_b_def fund_c_def
      js_sub_def)

lemma inherited_failures:
  "analysis [ctor_item] False = Inl TypeError"
  "analysis [proto_item] False = Inl PrototypePolluted"
  by (simp_all add: eval_simps ctor_item_def proto_item_def fund_a_def)

section \<open>Properties of the normalizer\<close>

lemmas norm_eval = processRawRows_def header_names_def data_rows_def build_row_def
  cell_value_def clean_def to_number_def is_blank_def get_cell_def val_truthy_def
  is_header_row_def JSON_stringify_def json_value_def json_escape_def js_String_def
  toLowerCase_def lower_char_def unquote_def trim_def trimStart.simps trimEnd.simps
  space_seqs_def suffix_to_prefix remove_char_def Let_def
  parseFloat_def unsigned_literal_def is_digit_def digit_val_def digits_val_def
  exponent_part_def pow10_def

lemma cell_value_numeric:
  assumes "k \<in> numeric_fields"
  shows "cell_value k c = VNum (number_of k (clean c))"
proof (cases "k = ''XIRR''")
  case True
  then show ?thesis
    by (cases "clean c")
       (simp_all add: cell_value_def Let_def to_number_def is_blank_def number_of_def strip_for_def)
next
  case False
  then have "k \<in> set [''Invested Value'', ''Current Value'', ''Returns'', ''Units'']"
    using assms by (auto simp: numeric_fields_def)
  then show ?thesis
    using False
    by (cases "clean c")
       (simp_all add: cell_value_def Let_def to_number_def is_blank_def number_of_def strip_for_def)
qed

lemma build_fold_lookup:
  assumes "map_of (foldl (\<lambda>rowObj p.
              case snd p of
                None \<Rightarrow> rowObj
              | Some header \<Rightarrow>
                  if header = ''__proto__'' then rowObj
                  else dict_upd header (\<lambda>old. cell_value header (get_cell row (fst p))) rowObj)
            obj ps) k = Some v"
  shows "map_of obj k = Some v \<or> (\<exists>i. (i, Some k) \<in> set ps \<and> v = cell_value k (get_cell row i))"
  using assms
proof (induction ps arbitrary: obj)
  case Nil
  then show ?case by simp
next
  case (Cons p ps)
  obtain i ho where p: "p = (i, ho)" by (cases p)
  show ?case
  proof (cases ho)
    case None
    then show ?thesis using Cons.IH[of obj] Cons.prems p by auto
  next
    case (Some header)
    show ?thesis
    proof (cases "header = ''__proto__''")
      case True
      then show ?thesis using Cons.IH[of obj] Cons.prems p Some by auto
    next
      case False
      let ?obj' = "dict_upd header (\<lambda>old. cell_value header (get_cell row i)) obj"
      from Cons.prems have "map_of ?obj' k = Some v \<or>
          (\<exists>j. (j, Some k) \<in> set ps \<and> v = cell_value k (get_cell row j))"
        using Cons.IH[of ?obj'] p Some False by simp
      then show ?thesis
      proof
        assume "map_of ?obj' k = Some v"
        then show ?thesis using p Some by (auto simp: map_of_dict_upd split: if_splits)
      next
        assume "\<exists>j. (j, Some k) \<in> set ps \<and> v = cell_value k (get_cell row j)"
        then show ?thesis by auto
      qed
    qed
  qed
qed

lemma build_row_lookup:
  assumes "map_of (build_row hs row) k = Some v"
  shows "\<exists>i<length hs. hs ! i = Some k \<and> v = cell_value k (get_cell row i)"
proof -
  from assms have "map_of [] k = Some v \<or>
      (\<exists>i. (i, Some k) \<in> set (zip [0..<length hs] hs) \<and> v = cell_value k (get_cell row i))"
    unfolding build_row_def by (rule build_fold_lookup)
  then obtain i where i: "(i, Some k) \<in> set (zip [0..<length hs] hs)"
      "v = cell_value k (get_cell row i)" by auto
  from i(1) have "i < length hs \<and> hs ! i = Some k"
    by (auto simp: set_zip)
  with i(2) show ?thesis by blast
qed

lemma build_row_absent:
  assumes "Some k \<notin> set hs"
  shows "map_of (build_row hs row) k = None"
proof (rule ccontr)
  assume "map_of (build_row hs row) k \<noteq> None"
  then obtain v where "map_of (build_row hs row) k = Some v" by auto
  from build_row_lookup[OF this] obtain i where "i < length hs" "hs ! i = Some k" by blast
  then have "Some k \<in> set hs" by (metis nth_mem)
  with assms show False by simp
qed

lemma data_rows_member:
  assumes "h \<in> set (data_rows hs rs)"
  shows "\<exists>row\<in>set rs. 2 \<le> length row \<and> h = build_row hs row
           \<and> val_truthy (map_of h ''Scheme Name'')"
proof -
  from assms obtain row where r: "row \<in> set rs" "\<not> length row < 2"
      "val_truthy (map_of (build_row hs row) ''Scheme Name'')" "h = build_row hs row"
    by (auto simp: data_rows_def Let_def split: if_splits)
  then have "2 \<le> length row" by simp
  with r show ?thesis by blast
qed

lemma processRawRows_member:
  assumes "h \<in> set (processRawRows nt grid)"
  shows "\<exists>i row. headerIndex_from nt 0 grid = Some i \<and> row \<in> set (drop (Suc i) grid)
           \<and> 2 \<le> length row \<and> h = build_row (header_names nt (grid ! i)) row
           \<and> val_truthy (map_of h ''Scheme Name'')"
proof (cases "headerIndex_from nt 0 grid")
  case None
  then show ?thesis using assms by (simp add: processRawRows_def)
next
  case (Some i)
  then have "h \<in> set (data_rows (header_names nt (grid ! i)) (drop (Suc i) grid))"
    using assms by (simp add: processRawRows_def)
  from data_rows_member[OF this] Some show ?thesis by blast
qed

lemma headerIndex_from_None:
  "(headerIndex_from nt n rows = None) = (\<forall>r\<in>set rows. \<not> is_header_row nt r)"
  by (induction rows arbitrary: n) auto

lemma headerIndex_from_Some:
  "headerIndex_from nt n rows = Some i \<Longrightarrow>
     n \<le> i \<and> i - n < length rows \<and> is_header_row nt (rows ! (i - n))
     \<and> (\<forall>j<i - n. \<not> is_header_row nt (rows ! j))"
proof (induction rows arbitrary: n)
  case Nil
  then show ?case by simp
next
  case (Cons r rs)
  show ?case
  proof (cases "is_header_row nt r")
    case True
    then show ?thesis using Cons.prems by simp
  next
    case False
    then have s: "headerIndex_from nt (Suc n) rs = Some i" using Cons.prems by simp
    from Cons.IH[OF s] have ih: "Suc n \<le> i" "i - Suc n < length rs"
        "is_header_row nt (rs ! (i - Suc n))" "\<forall>j<i - Suc n. \<not> is_header_row nt (rs ! j)"
      by simp_all
    have e: "i - n = Suc (i - Suc n)" using ih(1) by simp
    have "\<forall>j<i - n. \<not> is_header_row nt ((r # rs) ! j)"
    proof (intro allI impI)
      fix j assume "j < i - n"
      then show "\<not> is_header_row nt ((r # rs) ! j)"
        using False ih(4) e by (cases j) simp_all
    qed
    then show ?thesis using ih e by simp
  qed
qed

lemma headerIndex_from_shift:
  "headerIndex_from nt (Suc n) rows = map_option Suc (headerIndex_from nt n rows)"
  by (induction rows arbitrary: n) simp_all

lemma processRawRows_skip:
  assumes "\<forall>r\<in>set pre. \<not> is_header_row nt r"
  shows "processRawRows nt (pre @ rows) = processRawRows nt rows"
  using assms
proof (induction pre)
  case Nil
  then show ?case by simp
next
  case (Cons p pre)
  then have ih: "processRawRows nt (pre @ rows) = processRawRows nt rows" by simp
  have np: "\<not> is_header_row nt p" using Cons.prems by simp
  have "processRawRows nt (p # pre @ rows) = processRawRows nt (pre @ rows)"
  proof (cases "headerIndex_from nt 0 (pre @ rows)")
    case None
    then show ?thesis using np by (simp add: processRawRows_def headerIndex_from_shift)
  next
    case (Some i)
    then show ?thesis using np by (simp add: processRawRows_def headerIndex_from_shift)
  qed
  then show ?case using ih by simp
qed

lemma eval_good:
  "processRawRows no_numbers [header_row, [VStr ''X'', VStr ''4,500'']] =
   [[(''Scheme Name'', VStr ''X''), (''Current Value'', VNum (Fin 4500))]]"
  by (simp add: norm_eval header_row_def)

lemma eval_junk: "\<forall>r\<in>set [[VStr ''Statement'', VStr ''2024'']]. \<not> is_header_row no_numbers r"
  by (simp add: norm_eval)

lemma parseFloat_examples:
  "parseFloat ''4500'' = Fin 4500" "parseFloat ''abc'' = NaN"
  "parseFloat ''-12.5e-1x'' = Fin (- 5 / 4)" "parseFloat ''Infinity'' = PInf"
  "parseFloat ''.5'' = Fin (1 / 2)" "parseFloat ''.'' = NaN" "parseFloat ''1e'' = Fin 1"
  by (simp_all add: parseFloat_def unsigned_literal_def trimStart.simps space_seqs_def
      is_digit_def digit_val_def digits_val_def exponent_part_def pow10_def Let_def)

lemma white_space_examples:
  "trim ([CHR 0xC2, CHR 0xA0] @ ''4 500'' @ [CHR 0xE2, CHR 0x80, CHR 0x83, CHR 0x0A]) = ''4 500''"
  "parseFloat ([CHR 0xEF, CHR 0xBB, CHR 0xBF, CHR 0xC2, CHR 0xA0] @ ''5'') = Fin 5"
  "cell_value ''Current Value'' (VStr [CHR 0xC2, CHR 0xA0]) = VNum (Fin 0)"
  "cell_value ''Current Value'' (VStr ([CHR 0xC2, CHR 0xA0] @ ''5'')) = VNum (Fin 5)"
  by (simp_all add: norm_eval)

subsection \<open>Numeric coercion\<close>

lemma build_row_snoc:
  "build_row (hs @ [x]) row =
     (case x of
        None \<Rightarrow> build_row hs row
      | Some header \<Rightarrow>
          if header = ''__proto__'' then build_row hs row
          else dict_upd header (\<lambda>old. cell_value header (get_cell row (length hs)))
                 (build_row hs row))"
  by (cases x) (simp_all add: build_row_def)

text \<open>
  A header name other than \<open>__proto__\<close> is an own property of every row object; its value
  comes from the last column that carries the name.
\<close>

lemma build_row_present:
  assumes "Some k \<in> set hs" and "k \<noteq> ''__proto__''"
  shows "\<exists>j<length hs. hs ! j = Some k
           \<and> (\<forall>j'. j < j' \<and> j' < length hs \<longrightarrow> hs ! j' \<noteq> Some k)
           \<and> map_of (build_row hs row) k = Some (cell_value k (get_cell row j))"
  using assms(1)
proof (induction hs rule: rev_induct)
  case Nil
  then show ?case by simp
next
  case (snoc x hs)
  show ?case
  proof (cases "x = Some k")
    case True
    have m: "map_of (build_row (hs @ [x]) row) k = Some (cell_value k (get_cell row (length hs)))"
      using True assms(2) by (simp add: build_row_snoc map_of_dict_upd)
    have "(hs @ [x]) ! length hs = Some k" using True by simp
    moreover have "\<forall>j'. length hs < j' \<and> j' < length (hs @ [x]) \<longrightarrow> (hs @ [x]) ! j' \<noteq> Some k"
      by auto
    ultimately show ?thesis using m
      by (intro exI[of _ "length hs"]) simp
  next
    case False
    then have "Some k \<in> set hs" using snoc.prems by simp
    from snoc.IH[OF this] obtain j where j: "j < length hs" "hs ! j = Some k"
        "\<forall>j'. j < j' \<and> j' < length hs \<longrightarrow> hs ! j' \<noteq> Some k"
        "map_of (build_row hs row) k = Some (cell_value k (get_cell row j))"
      by blast
    have m: "map_of (build_row (hs @ [x]) row) k = Some (cell_value k (get_cell row j))"
      using False j(4) by (cases x) (auto simp: build_row_snoc map_of_dict_upd)
    have a: "(hs @ [x]) ! j = Some k" using j(1) j(2) by (simp add: nth_append)
    have b: "\<forall>j'. j < j' \<and> j' < length (hs @ [x]) \<longrightarrow> (hs @ [x]) ! j' \<noteq> Some k"
    proof (intro allI impI)
      fix j' assume h: "j < j' \<and> j' < length (hs @ [x])"
      show "(hs @ [x]) ! j' \<noteq> Some k"
      proof (cases "j' < length hs")
        case True
        then show ?thesis using j(3) h by (simp add: nth_append)
      next
        case False
        then have "j' = length hs" using h by simp
        then show ?thesis using \<open>x \<noteq> Some k\<close> by simp
      qed
    qed
    show ?thesis using j(1) a b m
      by (intro exI[of _ j]) simp
  qed
qed

lemma numeric_not_proto: "k \<in> numeric_fields \<Longrightarrow> k \<noteq> ''__proto__''"
  by (auto simp: numeric_fields_def)

text \<open>
  C1 (as amended). Every row object produced by the normalizer is built from the header
  row found by the header detection and from a row after it; each of the five numeric
  fields whose name occurs in the header is present in it and holds a number, never a
  string, \<open>null\<close> or \<open>undefined\<close>: the number stored for the cell in the last column of that
  name, which is \<open>0\<close> when the cell is empty, missing or \<open>null\<close>, the cell's number when it
  is numeric, and \<open>parseFloat\<close> of the text with commas (for \<open>XIRR\<close> also percent signs)
  removed otherwise. That number may be \<open>NaN\<close> or infinite. A numeric field whose name does
  not occur in the header is absent.
\<close>

theorem numeric_fields_coerced:
  "\<forall>h\<in>set (processRawRows nt grid).
     \<exists>i row. headerIndex_from nt 0 grid = Some i \<and> row \<in> set (drop (Suc i) grid)
       \<and> h = build_row (header_names nt (grid ! i)) row
       \<and> (\<forall>k\<in>numeric_fields.
            (Some k \<in> set (header_names nt (grid ! i)) \<longrightarrow>
               (\<exists>j<length (header_names nt (grid ! i)).
                   header_names nt (grid ! i) ! j = Some k
                 \<and> (\<forall>j'. j < j' \<and> j' < length (header_names nt (grid ! i))
                          \<longrightarrow> header_names nt (grid ! i) ! j' \<noteq> Some k)
                 \<and> map_of h k = Some (VNum (number_of k (clean (get_cell row j))))))
          \<and> (Some k \<notin> set (header_names nt (grid ! i)) \<longrightarrow> map_of h k = None))"
proof
  fix h
  assume h: "h \<in> set (processRawRows nt grid)"
  from processRawRows_member[OF h] obtain i row where
    r: "headerIndex_from nt 0 grid = Some i" "row \<in> set (drop (Suc i) grid)"
       "h = build_row (header_names nt (grid ! i)) row"
    by blast
  let ?hs = "header_names nt (grid ! i)"
  have "\<forall>k\<in>numeric_fields.
            (Some k \<in> set ?hs \<longrightarrow>
               (\<exists>j<length ?hs. ?hs ! j = Some k
                 \<and> (\<forall>j'. j < j' \<and> j' < length ?hs \<longrightarrow> ?hs ! j' \<noteq> Some k)
                 \<and> map_of h k = Some (VNum (number_of k (clean (get_cell row j))))))
          \<and> (Some k \<notin> set ?hs \<longrightarrow> map_of h k = None)"
  proof
    fix k assume k: "k \<in> numeric_fields"
    have p: "Some k \<in> set ?hs \<longrightarrow>
               (\<exists>j<length ?hs. ?hs ! j = Some k
                 \<and> (\<forall>j'. j < j' \<and> j' < length ?hs \<longrightarrow> ?hs ! j' \<noteq> Some k)
                 \<and> map_of h k = Some (VNum (number_of k (clean (get_cell row j)))))"
    proof
      assume "Some k \<in> set ?hs"
      from build_row_present[OF this numeric_not_proto[OF k], of row]
      show "\<exists>j<length ?hs. ?hs ! j = Some k
                 \<and> (\<forall>j'. j < j' \<and> j' < length ?hs \<longrightarrow> ?hs ! j' \<noteq> Some k)
                 \<and> map_of h k = Some (VNum (number_of k (clean (get_cell row j))))"
        unfolding r(3) cell_value_numeric[OF k] .
    qed
    have a: "Some k \<notin> set ?hs \<longrightarrow> map_of h k = None"
      using build_row_absent[of k ?hs row] r(3) by simp
    show "(Some k \<in> set ?hs \<longrightarrow>
               (\<exists>j<length ?hs. ?hs ! j = Some k
                 \<and> (\<forall>j'. j < j' \<and> j' < length ?hs \<longrightarrow> ?hs ! j' \<noteq> Some k)
                 \<and> map_of h k = Some (VNum (number_of k (clean (get_cell row j))))))
          \<and> (Some k \<notin> set ?hs \<longrightarrow> map_of h k = None)"
      using p a by (rule conjI)
  qed
  with r show "\<exists>i row. headerIndex_from nt 0 grid = Some i \<and> row \<in> set (drop (Suc i) grid)
       \<and> h = build_row (header_names nt (grid ! i)) row
       \<and> (\<forall>k\<in>numeric_fields.
            (Some k \<in> set (header_names nt (grid ! i)) \<longrightarrow>
               (\<exists>j<length (header_names nt (grid ! i)).
                   header_names nt (grid ! i) ! j = Some k
                 \<and> (\<forall>j'. j < j' \<and> j' < length (header_names nt (grid ! i))
                          \<longrightarrow> header_names nt (grid ! i) ! j' \<noteq> Some k)
                 \<and> map_of h k = Some (VNum (number_of k (clean (get_cell row j))))))
          \<and> (Some k \<notin> set (header_names nt (grid ! i)) \<longrightarrow> map_of h k = None))"
    by blast
qed

lemma eval_good_header:
  "headerIndex_from no_numbers 0 [header_row, [VStr ''X'', VStr ''4,500'']] = Some 0"
  "header_names no_numbers header_row = [Some ''Scheme Name'', Some ''Current Value'']"
  by (simp_all add: norm_eval header_row_def)

theorem numeric_fields_coerced_witness:
  "map_of (hd (processRawRows no_numbers [header_row, [VStr ''X'', VStr ''4,500'']]))
     ''Current Value'' = Some (VNum (Fin 4500))
   \<and> map_of (hd (processRawRows no_numbers [header_row, [VStr ''X'', VStr ''4,500'']]))
       ''Units'' = None"
  using numeric_fields_coerced [of no_numbers "[header_row, [VStr ''X'', VStr ''4,500'']]"]
  by (simp add: eval_good)

text \<open>
  The claim as written fails for unparseable text: the cell \<open>abc\<close> under
  \<open>Current Value\<close> becomes \<open>NaN\<close>, not \<open>0\<close> (and \<open>Units\<close>, \<open>Invested Value\<close>, \<open>Returns\<close> and
  \<open>XIRR\<close>, which have no column here, are absent).
\<close>

theorem unparseable_cell_is_NaN:
  "processRawRows no_numbers [header_row, [VStr ''X'', VStr ''abc'']] =
   [[(''Scheme Name'', VStr ''X''), (''Current Value'', VNum NaN)]]"
  by (simp add: norm_eval header_row_def)

subsection \<open>Header detection\<close>

text \<open>
  C7 (as amended). The header is the first row, from the top, whose \<open>JSON.stringify\<close> text,
  lower-cased, contains both \<open>scheme name\<close> and \<open>current value\<close>; without such a row the
  result is the empty list; with it, the result is built from that row and the rows after
  it only, and rows put in front of a grid that do not pass the test change nothing.
\<close>

theorem header_detection:
  "(headerIndex_from nt 0 rows = None) = (\<forall>r\<in>set rows. \<not> is_header_row nt r)
   \<and> (headerIndex_from nt 0 rows = None \<longrightarrow> processRawRows nt rows = [])
   \<and> (\<forall>i. headerIndex_from nt 0 rows = Some i \<longrightarrow>
         i < length rows \<and> is_header_row nt (rows ! i)
         \<and> (\<forall>j<i. \<not> is_header_row nt (rows ! j))
         \<and> processRawRows nt rows =
             data_rows (header_names nt (rows ! i)) (drop (Suc i) rows))
   \<and> (\<forall>pre. (\<forall>r\<in>set pre. \<not> is_header_row nt r) \<longrightarrow>
         processRawRows nt (pre @ rows) = processRawRows nt rows)"
proof (intro conjI)
  show "(headerIndex_from nt 0 rows = None) = (\<forall>r\<in>set rows. \<not> is_header_row nt r)"
    by (rule headerIndex_from_None)
  show "headerIndex_from nt 0 rows = None \<longrightarrow> processRawRows nt rows = []"
    by (simp add: processRawRows_def)
  show "\<forall>i. headerIndex_from nt 0 rows = Some i \<longrightarrow>
         i < length rows \<and> is_header_row nt (rows ! i)
         \<and> (\<forall>j<i. \<not> is_header_row nt (rows ! j))
         \<and> processRawRows nt rows =
             data_rows (header_names nt (rows ! i)) (drop (Suc i) rows)"
  proof (intro allI impI)
    fix i assume s: "headerIndex_from nt 0 rows = Some i"
    from headerIndex_from_Some[OF s] have "i < length rows" "is_header_row nt (rows ! i)"
      "\<forall>j<i. \<not> is_header_row nt (rows ! j)" by simp_all
    moreover have "processRawRows nt rows =
        data_rows (header_names nt (rows ! i)) (drop (Suc i) rows)"
      by (simp add: processRawRows_def s)
    ultimately show "i < length rows \<and> is_header_row nt (rows ! i)
         \<and> (\<forall>j<i. \<not> is_header_row nt (rows ! j))
         \<and> processRawRows nt rows =
             data_rows (header_names nt (rows ! i)) (drop (Suc i) rows)"
      by blast
  qed
  show "\<forall>pre. (\<forall>r\<in>set pre. \<not> is_header_row nt r) \<longrightarrow>
         processRawRows nt (pre @ rows) = processRawRows nt rows"
    using processRawRows_skip by blast
qed

theorem header_detection_witness:
  "processRawRows no_numbers
     [[VStr ''Statement'', VStr ''2024''], header_row, [VStr ''X'', VStr ''4,500'']] =
   [[(''Scheme Name'', VStr ''X''), (''Current Value'', VNum (Fin 4500))]]"
proof -
  note c4 = conjunct2[OF conjunct2[OF conjunct2[OF
        header_detection[of no_numbers "[header_row, [VStr ''X'', VStr ''4,500'']]"]]]]
  from c4 eval_junk have
    "processRawRows no_numbers
       ([[VStr ''Statement'', VStr ''2024'']] @ [header_row, [VStr ''X'', VStr ''4,500'']]) =
     processRawRows no_numbers [header_row, [VStr ''X'', VStr ''4,500'']]"
    by blast
  then show ?thesis by (simp add: eval_good)
qed

text \<open>
  The claim as written fails when a substring is spread over two cells: the concatenated
  text of \<open>Scheme Name\<close>, \<open>Current \<close>, \<open>Value\<close> contains both substrings, but in the
  \<open>JSON.stringify\<close> text the cells are quoted and separated by commas, so the row is not
  taken as header and nothing is returned, although the next row would be a Holding under
  these headers.
\<close>

theorem split_header_not_detected:
  "spec_header_row no_numbers split_header_row
   \<and> headerIndex_from no_numbers 0 [split_header_row, [VStr ''X'', VStr ''1'', VStr ''5000'']] = None
   \<and> processRawRows no_numbers [split_header_row, [VStr ''X'', VStr ''1'', VStr ''5000'']] = []
   \<and> data_rows (header_names no_numbers split_header_row)
        [[VStr ''X'', VStr ''1'', VStr ''5000'']] =
      [[(''Scheme Name'', VStr ''X''), (''Current'', VStr ''1''), (''Value'', VStr ''5000'')]]"
  by (simp add: norm_eval spec_header_row_def split_header_row_def)


end
